theory Spec2Isabelle
  imports Main "HOL-Library.Char_ord" "HOL-Library.List_Lexorder"
begin

section \<open>Rate limiter (src/limiter\_api\_BMN.lua)\<close>

text \<open>
  The script runs atomically on the Redis server and touches one key, a hash with the
  fields \<open>tokens\<close> and \<open>last_request\<close>. The key is modelled by the hash
  (a map from field names to the numbers stored there; a key that does not exist is the
  empty map, as \<open>HGET\<close> answers nil for every field of a missing key) and by the
  time-to-live set with \<open>EXPIRE\<close>. The seconds part of \<open>TIME\<close> is the
  argument \<open>currentTime\<close>. All numbers of the script are integer valued (Lua
  doubles holding integers), so they are modelled by \<open>int\<close>.
\<close>

record redis_key =
  hash :: "string \<rightharpoonup> int"
  ttl :: "int option"

definition ALLOW :: int where
  "ALLOW = 1"

definition DENY :: int where
  "DENY = 0"

definition rate_limiter :: "int \<Rightarrow> int \<Rightarrow> int \<Rightarrow> int \<Rightarrow> redis_key \<Rightarrow> redis_key \<times> int" where
  "rate_limiter maxTokens refillRate keyExpiry currentTime k =
    (let currentTokens = (case hash k ''tokens'' of None \<Rightarrow> 0 | Some t \<Rightarrow> t);
         lastRequest = hash k ''last_request''
     in case lastRequest of
          None \<Rightarrow>
            (let k1 = k\<lparr>hash := (hash k)(''last_request'' \<mapsto> currentTime)\<rparr>;
                 k2 = k1\<lparr>hash := (hash k1)(''tokens'' \<mapsto> maxTokens - 1)\<rparr>;
                 k3 = k2\<lparr>ttl := Some keyExpiry\<rparr>
             in (k3, 1))
        | Some lr \<Rightarrow>
            (let elapsedSeconds = currentTime - lr;
                 newTokens = min maxTokens (currentTokens + elapsedSeconds * refillRate)
             in if newTokens > 0
                then (let k1 = k\<lparr>hash := (hash k)(''tokens'' \<mapsto> newTokens - 1)\<rparr>;
                          k2 = k1\<lparr>hash := (hash k1)(''last_request'' \<mapsto> currentTime)\<rparr>
                      in (k2, 1))
                else (k, 0)))"

text \<open>The variant in the repository: \<open>maxTokens = 10\<close>, \<open>refillRate = 5\<close>,
  \<open>keyExpiry = 300\<close>.\<close>

definition limiter_api_BMN :: "int \<Rightarrow> redis_key \<Rightarrow> redis_key \<times> int" where
  "limiter_api_BMN = rate_limiter 10 5 300"

text \<open>The states of the key that the script itself produces: no hash, or a hash that
  holds both fields.\<close>

definition bucket_absent :: "redis_key \<Rightarrow> bool" where
  "bucket_absent k = (hash k ''tokens'' = None \<and> hash k ''last_request'' = None)"

definition bucket_holds :: "redis_key \<Rightarrow> int \<Rightarrow> int \<Rightarrow> bool" where
  "bucket_holds k tk lr = (hash k ''tokens'' = Some tk \<and> hash k ''last_request'' = Some lr)"

section \<open>The job store (src/db.js, src/models/job.js)\<close>

text \<open>
  JSON values, as they arrive in request bodies and pub/sub messages. A JavaScript value is
  falsy when it is \<open>null\<close>, \<open>false\<close>, \<open>0\<close> or the empty string; objects and
  arrays are truthy, also the empty ones. A value that is \<open>undefined\<close> (a property left
  out of the body) is \<open>None\<close> of type \<open>json option\<close>.
\<close>

datatype json =
    JNull
  | JBool bool
  | JNum int
  | JStr string
  | JArr "json list"
  | JObj "(string \<times> json) list"

fun truthy :: "json \<Rightarrow> bool" where
  "truthy JNull = False"
| "truthy (JBool b) = b"
| "truthy (JNum n) = (n \<noteq> 0)"
| "truthy (JStr s) = (s \<noteq> [])"
| "truthy (JArr xs) = True"
| "truthy (JObj kvs) = True"

text \<open>
  A row of table \<open>jobs\<close>. The columns \<open>payload\<close> and \<open>result\<close> hold the text
  \<open>JSON.stringify v\<close>; the model keeps the value \<open>v\<close> itself. Timestamps are seconds
  (\<open>CURRENT_TIMESTAMP\<close> has the resolution of one second). The columns \<open>id\<close> and
  \<open>type\<close> are the fields \<open>job_id\<close> and \<open>job_type\<close>.
\<close>

record job =
  job_id :: nat
  job_type :: string
  payload :: json
  status :: string
  worker_id :: "nat option"
  result :: "json option"
  created_at :: nat
  updated_at :: nat

text \<open>A row of table \<open>workers\<close> (columns \<open>id\<close>, \<open>type\<close>, \<open>status\<close>,
  \<open>last_active\<close>, \<open>created_at\<close>, \<open>updated_at\<close>).\<close>

record worker =
  w_id :: nat
  w_type :: string
  w_status :: string
  last_active :: nat
  w_created_at :: nat
  w_updated_at :: nat

text \<open>
  The database: both tables in row order, and for each table the largest id handed out so
  far (\<open>AUTOINCREMENT\<close> keeps it in \<open>sqlite_sequence\<close>).
\<close>

record database =
  jobs :: "job list"
  workers :: "worker list"
  jobs_seq :: nat
  workers_seq :: nat

definition next_rowid :: "nat list \<Rightarrow> nat \<Rightarrow> nat" where
  "next_rowid ids s = Suc (fold max ids s)"

text \<open>\<open>Job.create\<close>: one \<open>INSERT\<close>; the result is the new row's id.\<close>

definition job_create :: "nat \<Rightarrow> string \<Rightarrow> json \<Rightarrow> database \<Rightarrow> database \<times> nat" where
  "job_create now ty pl db =
    (let lastID = next_rowid (map job_id (jobs db)) (jobs_seq db);
         row = \<lparr>job_id = lastID, job_type = ty, payload = pl, status = ''pending'',
                worker_id = None, result = None, created_at = now, updated_at = now\<rparr>
     in (db\<lparr>jobs := jobs db @ [row], jobs_seq := lastID\<rparr>, lastID))"

text \<open>
  \<open>Job.getNextPending\<close> runs two statements with a suspension point (\<open>await\<close>)
  between them. The first is
  \<open>SELECT * FROM jobs WHERE status = 'pending' AND type = ? ORDER BY created_at ASC LIMIT 1\<close>:
  the pending rows of the type, sorted by \<open>created_at\<close> (rows of equal age keep their
  row order), the first of them if there is one.
\<close>

definition getNextPending_select :: "string \<Rightarrow> database \<Rightarrow> job option" where
  "getNextPending_select ty db =
    (case sort_key created_at
            (filter (\<lambda>j. status j = ''pending'' \<and> job_type j = ty) (jobs db)) of
       [] \<Rightarrow> None
     | j # _ \<Rightarrow> Some j)"

text \<open>
  The second statement is
  \<open>UPDATE jobs SET status = 'processing', updated_at = CURRENT_TIMESTAMP
    WHERE id = ? AND status = 'pending'\<close>; the result holds the number of rows it changed.
\<close>

definition getNextPending_update :: "nat \<Rightarrow> nat \<Rightarrow> database \<Rightarrow> database \<times> nat" where
  "getNextPending_update now i db =
    (db\<lparr>jobs := map (\<lambda>j. if job_id j = i \<and> status j = ''pending''
                           then j\<lparr>status := ''processing'', updated_at := now\<rparr> else j)
                     (jobs db)\<rparr>,
     length (filter (\<lambda>j. job_id j = i \<and> status j = ''pending'') (jobs db)))"

text \<open>
  The whole method. \<open>others\<close> is what the requests served during the suspension between
  the two statements did to the database (the identity when there were none); \<open>None\<close>
  is JavaScript's \<open>null\<close>. The method returns the row object read by the
  \<open>SELECT\<close>.
\<close>

definition getNextPending ::
  "(database \<Rightarrow> database) \<Rightarrow> nat \<Rightarrow> string \<Rightarrow> database \<Rightarrow> database \<times> job option" where
  "getNextPending others now ty db =
    (case getNextPending_select ty db of
       None \<Rightarrow> (db, None)
     | Some job \<Rightarrow>
         (let (db', changes) = getNextPending_update now (job_id job) (others db)
          in if changes = 0 then (db', None) else (db', Some job)))"

text \<open>
  \<open>Job.updateStatus(id, status, workerId = null, result = null)\<close>: one \<open>UPDATE\<close>
  setting \<open>status\<close>, \<open>worker_id\<close>, \<open>result\<close> and \<open>updated_at\<close> of the row
  with the id. A missing \<open>workerId\<close> or \<open>result\<close> is \<open>None\<close>; the column
  \<open>result\<close> gets \<open>result ? JSON.stringify(result) : null\<close>.
\<close>

definition job_updateStatus ::
  "nat \<Rightarrow> nat \<Rightarrow> string \<Rightarrow> nat option \<Rightarrow> json option \<Rightarrow> database \<Rightarrow> database" where
  "job_updateStatus now i st workerId res db =
    db\<lparr>jobs := map (\<lambda>j. if job_id j = i
                          then j\<lparr>status := st, worker_id := workerId,
                                 result := (case res of
                                              None \<Rightarrow> None
                                            | Some v \<Rightarrow> if truthy v then Some v else None),
                                 updated_at := now\<rparr>
                          else j)
                    (jobs db)\<rparr>"

text \<open>
  \<open>Job.getStats\<close> awaits five queries, one after the other: four \<open>COUNT\<close> queries
  by status and the counts grouped by type. Other requests are served while the method
  waits for a query, so each query reads the database as it is at its own moment. The
  method writes nothing; its model takes the five databases that the five queries read.
  \<open>GROUP BY type\<close> lists the groups by ascending type.
\<close>

record job_stats =
  pending :: nat
  processing :: nat
  completed :: nat
  failed :: nat
  byType :: "(string \<times> nat) list"

definition count_status :: "string \<Rightarrow> database \<Rightarrow> nat" where
  "count_status st db = length (filter (\<lambda>j. status j = st) (jobs db))"

definition job_getStats ::
  "database \<Rightarrow> database \<Rightarrow> database \<Rightarrow> database \<Rightarrow> database \<Rightarrow> job_stats" where
  "job_getStats d1 d2 d3 d4 d5 =
    \<lparr>pending = count_status ''pending'' d1,
     processing = count_status ''processing'' d2,
     completed = count_status ''completed'' d3,
     failed = count_status ''failed'' d4,
     byType = map (\<lambda>t. (t, length (filter (\<lambda>j. job_type j = t) (jobs d5))))
                  (sort (remdups (map job_type (jobs d5))))\<rparr>"

section \<open>The worker registry (class Worker, src/unnamed/part\_000)\<close>

text \<open>\<open>Worker.create\<close>: one \<open>INSERT\<close> with status \<open>idle\<close>; the result is the new
  row's id.\<close>

definition worker_create :: "nat \<Rightarrow> string \<Rightarrow> database \<Rightarrow> database \<times> nat" where
  "worker_create now ty d =
    (let lastID = next_rowid (map w_id (workers d)) (workers_seq d);
         row = \<lparr>w_id = lastID, w_type = ty, w_status = ''idle'', last_active = now,
                w_created_at = now, w_updated_at = now\<rparr>
     in (d\<lparr>workers := workers d @ [row], workers_seq := lastID\<rparr>, lastID))"

text \<open>\<open>Worker.updateStatus\<close>: one \<open>UPDATE\<close> of the row with the id.\<close>

definition worker_updateStatus :: "nat \<Rightarrow> nat \<Rightarrow> string \<Rightarrow> database \<Rightarrow> database" where
  "worker_updateStatus now i st d =
    d\<lparr>workers := map (\<lambda>w. if w_id w = i
                            then w\<lparr>w_status := st, last_active := now, w_updated_at := now\<rparr>
                            else w)
                      (workers d)\<rparr>"

definition worker_getAll :: "database \<Rightarrow> worker list" where
  "worker_getAll d = workers d"

definition worker_getByType :: "string \<Rightarrow> database \<Rightarrow> worker list" where
  "worker_getByType ty d = filter (\<lambda>w. w_type w = ty) (workers d)"

record worker_stats =
  total :: nat
  idle :: nat
  busy :: nat
  w_byType :: "(string \<times> nat) list"

text \<open>\<open>Worker.getStats\<close> awaits four queries in the same way.\<close>

definition worker_getStats ::
  "database \<Rightarrow> database \<Rightarrow> database \<Rightarrow> database \<Rightarrow> worker_stats" where
  "worker_getStats d1 d2 d3 d4 =
    \<lparr>total = length (workers d1),
     idle = length (filter (\<lambda>w. w_status w = ''idle'') (workers d2)),
     busy = length (filter (\<lambda>w. w_status w = ''busy'') (workers d3)),
     w_byType = map (\<lambda>t. (t, length (filter (\<lambda>w. w_type w = t) (workers d4))))
                    (sort (remdups (map w_type (workers d4))))\<rparr>"

section \<open>The worker supervisor (src/services/worker-manager.js)\<close>

text \<open>
  The supervisor keeps \<open>this.workers\<close>, a map from worker id to the handle
  \<open>{process, type, id}\<close> of the child process it spawned. Child processes are numbered
  in the order in which they are spawned; \<open>killed\<close> lists the processes that were sent
  the termination signal by \<open>process.kill()\<close>. \<open>startWorker\<close> registers an
  \<open>exit\<close> listener on the child it spawns; \<open>listeners\<close> maps a child that has
  not exited yet to the id and the type its listener has captured. A handle in the map
  says that the supervisor has spawned a child for the id and has neither stopped it nor
  seen it exit; it does not say that the child is alive.
\<close>

record handle =
  h_process :: nat
  h_type :: string
  h_id :: nat

record manager =
  handles :: "nat \<rightharpoonup> handle"
  listeners :: "nat \<rightharpoonup> nat \<times> string"
  spawned :: nat
  killed :: "nat list"

definition startWorker :: "nat \<Rightarrow> string \<Rightarrow> manager \<Rightarrow> manager" where
  "startWorker i ty m =
    m\<lparr>handles := (handles m)(i \<mapsto> \<lparr>h_process = spawned m, h_type = ty, h_id = i\<rparr>),
      listeners := (listeners m)(spawned m \<mapsto> (i, ty)),
      spawned := Suc (spawned m)\<rparr>"

text \<open>
  The \<open>exit\<close> event of child \<open>p\<close> with exit code \<open>code\<close> (\<open>None\<close> is
  \<open>null\<close>: the child was ended by a signal). The listener that \<open>startWorker\<close>
  registered runs \<open>delete this.workers[id]\<close> and, when \<open>code !== 0\<close>, starts a new
  child with the same id and type.
\<close>

definition process_exit :: "nat \<Rightarrow> int option \<Rightarrow> manager \<Rightarrow> manager" where
  "process_exit p code m =
    (case listeners m p of
       None \<Rightarrow> m
     | Some (i, ty) \<Rightarrow>
         (let m1 = m\<lparr>handles := (handles m)(i := None), listeners := (listeners m)(p := None)\<rparr>
          in if code \<noteq> Some 0 then startWorker i ty m1 else m1))"

definition manager_init :: "database \<Rightarrow> manager \<Rightarrow> manager" where
  "manager_init d m = fold (\<lambda>w. startWorker (w_id w) (w_type w)) (worker_getAll d) m"

definition createWorker ::
  "nat \<Rightarrow> string \<Rightarrow> database \<times> manager \<Rightarrow> (database \<times> manager) \<times> nat" where
  "createWorker now ty dm =
    (let (d', i) = worker_create now ty (fst dm)
     in ((d', startWorker i ty (snd dm)), i))"

definition stopWorker :: "nat \<Rightarrow> manager \<Rightarrow> manager \<times> bool" where
  "stopWorker i m =
    (case handles m i of
       Some h \<Rightarrow> (m\<lparr>killed := killed m @ [h_process h], handles := (handles m)(i := None)\<rparr>, True)
     | None \<Rightarrow> (m, False))"

text \<open>
  \<open>scaleWorkers(type, count)\<close>: the current workers are the rows of the registry with
  the type. With fewer than \<open>count\<close> rows the loop creates the missing ones; with more,
  it stops the first \<open>length - count\<close> of them (\<open>slice(0, length - count)\<close>).
  The loop that stops workers waits for nothing outside the process, so no \<open>exit\<close>
  event and no other request is handled before it ends; the supervisor in the argument is
  the supervisor as it is when the loop starts.
\<close>

definition scaleWorkers ::
  "nat \<Rightarrow> string \<Rightarrow> nat \<Rightarrow> database \<times> manager \<Rightarrow> database \<times> manager" where
  "scaleWorkers now ty count dm =
    (let currentWorkers = worker_getByType ty (fst dm)
     in if length currentWorkers < count
        then fold (\<lambda>_ s. fst (createWorker now ty s)) [length currentWorkers ..< count] dm
        else if length currentWorkers > count
        then (let workersToRemove = take (length currentWorkers - count) currentWorkers
              in (fst dm, fold (\<lambda>w m. fst (stopWorker (w_id w) m)) workersToRemove (snd dm)))
        else dm)"

text \<open>The workers of a type that have a handle in the supervisor's map, and the
  processes in the handles of a list of workers.\<close>

definition with_handle :: "string \<Rightarrow> database \<Rightarrow> manager \<Rightarrow> worker list" where
  "with_handle ty d m = filter (\<lambda>w. handles m (w_id w) \<noteq> None) (worker_getByType ty d)"

definition processes_of :: "manager \<Rightarrow> worker list \<Rightarrow> nat list" where
  "processes_of m ws =
    concat (map (\<lambda>w. case handles m (w_id w) of None \<Rightarrow> [] | Some h \<Rightarrow> [h_process h]) ws)"

section \<open>The HTTP interface and the completion handlers (startServer, src/unnamed/part\_000)\<close>

text \<open>
  The server's state: the database and the supervisor. The write to the Redis backlog
  that follows the creation of a job is outside this model.
\<close>

record server =
  store :: database
  supervisor :: manager

definition jobTypes :: "string list" where
  "jobTypes = [''email'', ''whatsapp'', ''sms'', ''notification'', ''cronjob'']"

definition maxCount :: int where
  "maxCount = 10"

text \<open>
  Request bodies. A property that is missing or \<open>null\<close> is \<open>None\<close>. The model covers
  bodies whose \<open>type\<close> and \<open>status\<close> are strings, whose \<open>workerId\<close> is a number and
  whose \<open>count\<close> is an integer.
\<close>

record patch_job_body =
  b_status :: "string option"
  b_workerId :: "nat option"
  b_result :: "json option"

datatype request =
    POST_jobs "string option" "json option"
  | GET_job nat
  | PATCH_job nat patch_job_body
  | GET_jobs_next string
  | POST_workers "string option"
  | GET_worker nat
  | DELETE_worker nat
  | PATCH_worker nat "string option"
  | POST_workers_scale "string option" "int option"
  | GET_stats

datatype response =
    Created_job nat
  | Ok_job job
  | Ok_next "job option"
  | Created_worker nat
  | Ok_worker worker
  | Ok_success
  | Ok_stats job_stats worker_stats
  | Bad_request string
  | Not_found string
  | Server_error string

definition is_object :: "json \<Rightarrow> bool" where
  "is_object v = (case v of JObj kvs \<Rightarrow> True | JArr xs \<Rightarrow> True | JNull \<Rightarrow> True | _ \<Rightarrow> False)"

definition is_array :: "json \<Rightarrow> bool" where
  "is_array v = (case v of JArr xs \<Rightarrow> True | _ \<Rightarrow> False)"

definition no_keys :: "json \<Rightarrow> bool" where
  "no_keys v = (case v of JObj kvs \<Rightarrow> kvs = [] | JArr xs \<Rightarrow> xs = [] | JStr s \<Rightarrow> s = [] | _ \<Rightarrow> True)"

text \<open>
  \<open>POST /api/jobs\<close>: \<open>!type || !payload\<close>, then
  \<open>typeof payload !== 'object' || Array.isArray(payload) || !Object.keys(payload).length\<close>,
  then the type must be one of \<open>config.jobTypes\<close>.
\<close>

definition post_jobs :: "nat \<Rightarrow> string option \<Rightarrow> json option \<Rightarrow> server \<Rightarrow> server \<times> response" where
  "post_jobs now ty pl s =
    (case (ty, pl) of
       (Some t, Some p) \<Rightarrow>
         if t = [] \<or> \<not> truthy p then (s, Bad_request ''Type and payload are required'')
         else if \<not> is_object p \<or> is_array p \<or> no_keys p
           then (s, Bad_request ''Payload must be a non-empty object'')
         else if t \<notin> set jobTypes then (s, Bad_request ''Invalid job type. Must be one of: email, whatsapp, sms, notification, cronjob'')
         else (let (d, jobId) = job_create now t p (store s)
               in (s\<lparr>store := d\<rparr>, Created_job jobId))
     | _ \<Rightarrow> (s, Bad_request ''Type and payload are required''))"

definition get_job :: "nat \<Rightarrow> server \<Rightarrow> server \<times> response" where
  "get_job i s =
    (case find (\<lambda>j. job_id j = i) (jobs (store s)) of
       None \<Rightarrow> (s, Not_found ''Job not found'')
     | Some j \<Rightarrow> (s, Ok_job j))"

text \<open>
  \<open>PATCH /api/jobs/:id\<close> passes \<open>status\<close>, \<open>workerId\<close> and \<open>result\<close> of the body to
  \<open>Job.updateStatus\<close>. A body without status binds NULL to a \<open>NOT NULL\<close> column: the
  statement fails when it reaches a row, and the handler answers 500.
\<close>

definition patch_job :: "nat \<Rightarrow> nat \<Rightarrow> patch_job_body \<Rightarrow> server \<Rightarrow> server \<times> response" where
  "patch_job now i b s =
    (case b_status b of
       None \<Rightarrow>
         if \<exists>j\<in>set (jobs (store s)). job_id j = i
         then (s, Server_error ''SQLITE_CONSTRAINT: NOT NULL constraint failed: jobs.status'')
         else (s, Ok_success)
     | Some st \<Rightarrow>
         (s\<lparr>store := job_updateStatus now i st (b_workerId b) (b_result b) (store s)\<rparr>,
          Ok_success))"

text \<open>\<open>GET /api/jobs/next/:type\<close>, served without another request in between. The
  handler replaces the text of the payload by the value it encodes, which is what the
  model keeps, and answers with the object that \<open>getNextPending\<close> returned.\<close>

definition get_jobs_next :: "nat \<Rightarrow> string \<Rightarrow> server \<Rightarrow> server \<times> response" where
  "get_jobs_next now ty s =
    (let (d, job) = getNextPending id now ty (store s)
     in (s\<lparr>store := d\<rparr>, Ok_next job))"

definition post_workers :: "nat \<Rightarrow> string option \<Rightarrow> server \<Rightarrow> server \<times> response" where
  "post_workers now ty s =
    (case ty of
       None \<Rightarrow> (s, Bad_request ''Type is required'')
     | Some t \<Rightarrow>
         if t = [] then (s, Bad_request ''Type is required'')
         else if t \<notin> set jobTypes then (s, Bad_request ''Invalid worker type. Must be one of: email, whatsapp, sms, notification, cronjob'')
         else (let ((d, m), workerId) = createWorker now t (store s, supervisor s)
               in (\<lparr>store = d, supervisor = m\<rparr>, Created_worker workerId)))"

definition get_worker :: "nat \<Rightarrow> server \<Rightarrow> server \<times> response" where
  "get_worker i s =
    (case find (\<lambda>w. w_id w = i) (workers (store s)) of
       None \<Rightarrow> (s, Not_found ''Worker not found'')
     | Some w \<Rightarrow> (s, Ok_worker w))"

definition delete_worker :: "nat \<Rightarrow> server \<Rightarrow> server \<times> response" where
  "delete_worker i s =
    (let (m, success) = stopWorker i (supervisor s)
     in if \<not> success then (s\<lparr>supervisor := m\<rparr>, Not_found ''Worker not found'')
        else (s\<lparr>supervisor := m\<rparr>, Ok_success))"

definition patch_worker :: "nat \<Rightarrow> nat \<Rightarrow> string option \<Rightarrow> server \<Rightarrow> server \<times> response" where
  "patch_worker now i st s =
    (case st of
       None \<Rightarrow>
         if \<exists>w\<in>set (workers (store s)). w_id w = i
         then (s, Server_error ''SQLITE_CONSTRAINT: NOT NULL constraint failed: workers.status'')
         else (s, Ok_success)
     | Some v \<Rightarrow> (s\<lparr>store := worker_updateStatus now i v (store s)\<rparr>, Ok_success))"

definition post_workers_scale ::
  "nat \<Rightarrow> string option \<Rightarrow> int option \<Rightarrow> server \<Rightarrow> server \<times> response" where
  "post_workers_scale now ty cnt s =
    (case (ty, cnt) of
       (Some t, Some c) \<Rightarrow>
         if t = [] \<or> c = 0 then (s, Bad_request ''Type and count are required'')
         else if t \<notin> set jobTypes then (s, Bad_request ''Invalid worker type. Must be one of: email, whatsapp, sms, notification, cronjob'')
         else if c < 1 \<or> c > maxCount then (s, Bad_request ''Count must be between 1 and 10'')
         else (let (d, m) = scaleWorkers now t (nat c) (store s, supervisor s)
               in (\<lparr>store = d, supervisor = m\<rparr>, Ok_success))
     | _ \<Rightarrow> (s, Bad_request ''Type and count are required''))"

text \<open>
  \<open>GET /api/stats\<close> awaits \<open>Job.getStats\<close> and then \<open>Worker.getStats\<close>, nine
  queries in all. The first query reads the store as it is when the request arrives; the
  other eight read the store as it is at their moments, after the requests served in
  between. These eight databases are \<open>later\<close>. The handler writes nothing.
\<close>

record stats_reads =
  at_processing :: database
  at_completed :: database
  at_failed :: database
  at_byType :: database
  at_total :: database
  at_idle :: database
  at_busy :: database
  at_w_byType :: database

definition get_stats :: "stats_reads \<Rightarrow> server \<Rightarrow> server \<times> response" where
  "get_stats later s =
    (let jobStats = job_getStats (store s) (at_processing later) (at_completed later)
                      (at_failed later) (at_byType later);
         workerStats = worker_getStats (at_total later) (at_idle later) (at_busy later)
                         (at_w_byType later)
     in (s, Ok_stats jobStats workerStats))"

text \<open>The reads of a request during which no other request is served.\<close>

definition undisturbed :: "database \<Rightarrow> stats_reads" where
  "undisturbed d =
    \<lparr>at_processing = d, at_completed = d, at_failed = d, at_byType = d,
     at_total = d, at_idle = d, at_busy = d, at_w_byType = d\<rparr>"

text \<open>One request, served at time \<open>now\<close> with no other request served before it
  ends.\<close>

fun api :: "nat \<Rightarrow> request \<Rightarrow> server \<Rightarrow> server \<times> response" where
  "api now (POST_jobs ty pl) s = post_jobs now ty pl s"
| "api now (GET_job i) s = get_job i s"
| "api now (PATCH_job i b) s = patch_job now i b s"
| "api now (GET_jobs_next ty) s = get_jobs_next now ty s"
| "api now (POST_workers ty) s = post_workers now ty s"
| "api now (GET_worker i) s = get_worker i s"
| "api now (DELETE_worker i) s = delete_worker i s"
| "api now (PATCH_worker i st) s = patch_worker now i st s"
| "api now (POST_workers_scale ty cnt) s = post_workers_scale now ty cnt s"
| "api now GET_stats s = get_stats (undisturbed (store s)) s"

text \<open>A run of the interface: the requests with their times, served one after the
  other.\<close>

fun api_run :: "(nat \<times> request) list \<Rightarrow> server \<Rightarrow> server" where
  "api_run [] s = s"
| "api_run ((now, r) # rs) s = api_run rs (fst (api now r s))"

text \<open>
  The handlers the server registers for the channels \<open>worker:job-complete\<close> and
  \<open>worker:job-failed\<close>. The message carries \<open>jobId\<close>, \<open>workerId\<close> and
  \<open>result\<close> (or \<open>error\<close>).
\<close>

record event =
  jobId :: nat
  workerId :: nat
  e_result :: "json option"
  e_error :: "json option"

definition onJobComplete :: "nat \<Rightarrow> event \<Rightarrow> database \<Rightarrow> database" where
  "onJobComplete now d_ev d =
    worker_updateStatus now (workerId d_ev) ''idle''
      (job_updateStatus now (jobId d_ev) ''completed'' (Some (workerId d_ev)) (e_result d_ev) d)"

text \<open>\<open>onJobFailed\<close> stores the object \<open>{ error: data.error }\<close>; a property that is
  \<open>undefined\<close> is dropped when the object is written as JSON.\<close>

definition error_object :: "json option \<Rightarrow> json" where
  "error_object e = JObj (case e of None \<Rightarrow> [] | Some v \<Rightarrow> [(''error'', v)])"

definition onJobFailed :: "nat \<Rightarrow> event \<Rightarrow> database \<Rightarrow> database" where
  "onJobFailed now d_ev d =
    worker_updateStatus now (workerId d_ev) ''idle''
      (job_updateStatus now (jobId d_ev) ''failed'' (Some (workerId d_ev))
         (Some (error_object (e_error d_ev))) d)"

text \<open>The database without its bookkeeping timestamps (\<open>updated_at\<close> of jobs,
  \<open>last_active\<close> and \<open>updated_at\<close> of workers).\<close>

definition untimed :: "database \<Rightarrow> database" where
  "untimed d =
    d\<lparr>jobs := map (\<lambda>j. j\<lparr>updated_at := 0\<rparr>) (jobs d),
      workers := map (\<lambda>w. w\<lparr>last_active := 0, w_updated_at := 0\<rparr>) (workers d)\<rparr>"

section \<open>The worker runtime (src/worker.js)\<close>

text \<open>
  The worker talks to the server over HTTP and to Redis. Each place of the code that makes
  such a call is a \<open>site\<close>; the network is a function that says, for each site, whether
  the call made there succeeds (\<open>None\<close>) or throws an error with a message. The
  adapter that executes the job (e-mail, WhatsApp, script or webhook) is one step that
  returns a result or throws. The effects of a run are the calls made, in order, and the
  lines written with \<open>console.error\<close>.
\<close>

datatype site =
    Patch_job_processing
  | Patch_worker_busy
  | Patch_job_completed
  | Patch_worker_idle
  | Publish_job_complete
  | Patch_job_failed
  | Patch_worker_idle_after_failure
  | Publish_job_failed
  | Poll_get_worker
  | Poll_patch_worker_idle
  | Poll_get_next
  | Poll_patch_worker_busy

datatype io =
    HTTP_PATCH_job nat patch_job_body
  | HTTP_PATCH_worker nat string
  | HTTP_GET_worker nat
  | HTTP_GET_jobs_next string
  | PUBLISH_job_complete event
  | PUBLISH_job_failed event
  | RUN_adapter

datatype log_entry =
    Call_failed site string
  | Job_failed string
  | Poll_failed string

record effects =
  calls :: "io list"
  errors :: "log_entry list"

text \<open>A call that is not wrapped: the error, if any, goes to the caller.\<close>

definition perform :: "(site \<Rightarrow> string option) \<Rightarrow> site \<Rightarrow> io \<Rightarrow> effects \<Rightarrow> effects \<times> string option" where
  "perform net c x e = (e\<lparr>calls := calls e @ [x]\<rparr>, net c)"

text \<open>A call wrapped in \<open>try { ... } catch (err) { console.error(... err.message) }\<close>:
  the error is logged and handed to the code after the \<open>console.error\<close>, which either
  throws it again or goes on.\<close>

definition attempt :: "(site \<Rightarrow> string option) \<Rightarrow> site \<Rightarrow> io \<Rightarrow> effects \<Rightarrow> effects \<times> string option" where
  "attempt net c x e =
    (case perform net c x e of
       (e', None) \<Rightarrow> (e', None)
     | (e', Some msg) \<Rightarrow> (e'\<lparr>errors := errors e' @ [Call_failed c msg]\<rparr>, Some msg))"

text \<open>The bodies of the three PATCH requests for the job, as \<open>processJob\<close> builds them.\<close>

definition processing_body :: "nat \<Rightarrow> patch_job_body" where
  "processing_body wid = \<lparr>b_status = Some ''processing'', b_workerId = Some wid, b_result = None\<rparr>"

definition completed_body :: "json \<Rightarrow> patch_job_body" where
  "completed_body res = \<lparr>b_status = Some ''completed'', b_workerId = None, b_result = Some res\<rparr>"

definition failed_body :: "string \<Rightarrow> patch_job_body" where
  "failed_body msg =
    \<lparr>b_status = Some ''failed'', b_workerId = None, b_result = Some (JObj [(''error'', JStr msg)])\<rparr>"

text \<open>The \<open>catch\<close> block of \<open>processJob\<close>: it logs the error, tries the three calls
  of the failure path, each in its own \<open>try/catch\<close>, and throws the error again.\<close>

definition processJob_catch ::
  "(site \<Rightarrow> string option) \<Rightarrow> nat \<Rightarrow> nat \<Rightarrow> string \<Rightarrow> effects \<Rightarrow> effects \<times> (string + json)" where
  "processJob_catch net wid jid msg e =
    (let e0 = e\<lparr>errors := errors e @ [Job_failed msg]\<rparr>;
         (e1, r1) = attempt net Patch_job_failed (HTTP_PATCH_job jid (failed_body msg)) e0;
         (e2, r2) = attempt net Patch_worker_idle_after_failure (HTTP_PATCH_worker wid ''idle'') e1;
         (e3, r3) = attempt net Publish_job_failed
                      (PUBLISH_job_failed \<lparr>jobId = jid, workerId = wid, e_result = None,
                                           e_error = Some (JStr msg)\<rparr>) e2
     in (e3, Inl msg))"

text \<open>
  \<open>processJob\<close> for worker \<open>wid\<close> and the job with id \<open>jid\<close>. The result is
  \<open>Inr\<close> of the adapter's result when the function returns and \<open>Inl\<close> of the message
  when it throws.
\<close>

definition processJob ::
  "(site \<Rightarrow> string option) \<Rightarrow> (string + json) \<Rightarrow> nat \<Rightarrow> nat \<Rightarrow> effects \<Rightarrow> effects \<times> (string + json)" where
  "processJob net adapter wid jid e =
    (case attempt net Patch_job_processing (HTTP_PATCH_job jid (processing_body wid)) e of
       (e1, Some patchError) \<Rightarrow> processJob_catch net wid jid patchError e1
     | (e1, None) \<Rightarrow>
    (case attempt net Patch_worker_busy (HTTP_PATCH_worker wid ''busy'') e1 of
       (e2, Some workerError) \<Rightarrow> processJob_catch net wid jid workerError e2
     | (e2, None) \<Rightarrow>
    (case adapter of
       Inl adapterError \<Rightarrow> processJob_catch net wid jid adapterError (e2\<lparr>calls := calls e2 @ [RUN_adapter]\<rparr>)
     | Inr res \<Rightarrow>
    (case attempt net Patch_job_completed (HTTP_PATCH_job jid (completed_body res))
            (e2\<lparr>calls := calls e2 @ [RUN_adapter]\<rparr>) of
       (e3, Some completeError) \<Rightarrow> processJob_catch net wid jid completeError e3
     | (e3, None) \<Rightarrow>
         (let (e4, r4) = attempt net Patch_worker_idle (HTTP_PATCH_worker wid ''idle'') e3;
              (e5, r5) = attempt net Publish_job_complete
                           (PUBLISH_job_complete \<lparr>jobId = jid, workerId = wid,
                                                  e_result = Some res, e_error = None\<rparr>) e4
          in (e5, Inr res))))))"


text \<open>What the \<open>catch\<close> block around a call at site \<open>c\<close> writes to the log, the
  calls of the failure path of \<open>processJob\<close>, and what that path writes to the log.\<close>

definition logged :: "(site \<Rightarrow> string option) \<Rightarrow> site \<Rightarrow> log_entry list" where
  "logged net c = (case net c of None \<Rightarrow> [] | Some msg \<Rightarrow> [Call_failed c msg])"

definition failure_calls :: "nat \<Rightarrow> nat \<Rightarrow> string \<Rightarrow> io list" where
  "failure_calls wid jid msg =
    [HTTP_PATCH_job jid (failed_body msg), HTTP_PATCH_worker wid ''idle'',
     PUBLISH_job_failed \<lparr>jobId = jid, workerId = wid, e_result = None, e_error = Some (JStr msg)\<rparr>]"

definition failure_log :: "(site \<Rightarrow> string option) \<Rightarrow> string \<Rightarrow> log_entry list" where
  "failure_log net msg =
    Job_failed msg # logged net Patch_job_failed @ logged net Patch_worker_idle_after_failure
      @ logged net Publish_job_failed"

section \<open>Two claim requests in flight\<close>

text \<open>
  The server is one process: a request runs until it waits for the database, and each SQL
  statement is atomic. Two calls of \<open>Job.getNextPending\<close> therefore interleave at the
  level of their statements. A call is at its start, or it holds the row its
  \<open>SELECT\<close> returned and has yet to run the \<open>UPDATE\<close>, or it has finished; a
  finished call records the row it had selected (if any) and what it returned.
\<close>

datatype claimant =
    Start
  | Selected job
  | Finished "job option" "job option"

fun claim_step :: "nat \<Rightarrow> string \<Rightarrow> database \<times> claimant \<Rightarrow> database \<times> claimant" where
  "claim_step now ty (d, Start) =
    (case getNextPending_select ty d of
       None \<Rightarrow> (d, Finished None None)
     | Some job \<Rightarrow> (d, Selected job))"
| "claim_step now ty (d, Selected job) =
    (let (d', changes) = getNextPending_update now (job_id job) d
     in if changes = 0 then (d', Finished (Some job) None)
        else (d', Finished (Some job) (Some job)))"
| "claim_step now ty (d, Finished c r) = (d, Finished c r)"

datatype caller = First | Second

fun race_step :: "string \<Rightarrow> caller \<times> nat \<Rightarrow> database \<times> claimant \<times> claimant
    \<Rightarrow> database \<times> claimant \<times> claimant" where
  "race_step ty (First, now) (d, a, b) = (let (d', a') = claim_step now ty (d, a) in (d', a', b))"
| "race_step ty (Second, now) (d, a, b) = (let (d', b') = claim_step now ty (d, b) in (d', a, b'))"

text \<open>A schedule says which call takes the next step, and at what time.\<close>

fun race :: "string \<Rightarrow> (caller \<times> nat) list \<Rightarrow> database \<times> claimant \<times> claimant
    \<Rightarrow> database \<times> claimant \<times> claimant" where
  "race ty [] s = s"
| "race ty (x # xs) s = race ty xs (race_step ty x s)"

definition returned :: "claimant \<Rightarrow> job option" where
  "returned c = (case c of Finished cand r \<Rightarrow> r | _ \<Rightarrow> None)"

definition candidate :: "claimant \<Rightarrow> job option" where
  "candidate c = (case c of Finished cand r \<Rightarrow> cand | Selected j \<Rightarrow> Some j | Start \<Rightarrow> None)"

definition finished :: "claimant \<Rightarrow> bool" where
  "finished c = (case c of Finished cand r \<Rightarrow> True | _ \<Rightarrow> False)"

text \<open>
  Notions for the race of two claims: the store holds a pending job with the id; a call
  has returned the job with the id (it won), holds the row with the id between its two
  statements, or has returned \<open>null\<close> after selecting the row with the id (it lost).
\<close>

definition pending_in :: "database \<Rightarrow> nat \<Rightarrow> bool" where
  "pending_in d i = (\<exists>r\<in>set (jobs d). job_id r = i \<and> status r = ''pending'')"

definition won :: "claimant \<Rightarrow> nat \<Rightarrow> bool" where
  "won c i = (case returned c of Some j \<Rightarrow> job_id j = i | None \<Rightarrow> False)"

definition holding :: "claimant \<Rightarrow> nat \<Rightarrow> bool" where
  "holding c i = (case c of Selected j \<Rightarrow> job_id j = i | _ \<Rightarrow> False)"

definition lost :: "claimant \<Rightarrow> nat \<Rightarrow> bool" where
  "lost c i = (case c of Finished (Some j) None \<Rightarrow> job_id j = i | _ \<Rightarrow> False)"

definition consistent :: "claimant \<Rightarrow> bool" where
  "consistent c = (case c of Finished cand r \<Rightarrow> r = None \<or> r = cand | _ \<Rightarrow> True)"

definition claims_agree :: "database \<Rightarrow> claimant \<Rightarrow> claimant \<Rightarrow> bool" where
  "claims_agree d p q =
    (\<forall>i. (holding p i \<longrightarrow> pending_in d i \<or> won q i)
       \<and> (won p i \<longrightarrow> \<not> pending_in d i \<and> \<not> won q i)
       \<and> (lost p i \<longrightarrow> won q i))"

definition race_inv :: "database \<times> claimant \<times> claimant \<Rightarrow> bool" where
  "race_inv s =
    (case s of
       (d, a, b) \<Rightarrow>
         distinct (map job_id (jobs d)) \<and> consistent a \<and> consistent b
         \<and> claims_agree d a b \<and> claims_agree d b a)"

definition steps_of :: "caller \<Rightarrow> (caller \<times> nat) list \<Rightarrow> nat" where
  "steps_of c sched = length (filter (\<lambda>x. fst x = c) sched)"

definition phase :: "claimant \<Rightarrow> nat" where
  "phase c = (case c of Start \<Rightarrow> 0 | Selected j \<Rightarrow> 1 | Finished cand r \<Rightarrow> 2)"

section \<open>The order of the job states\<close>

text \<open>
  \<open>pending \<rightarrow> processing \<rightarrow> {completed, failed}\<close>, one way: \<open>no_regress s s'\<close>
  holds when a job in state \<open>s\<close> may later be seen in state \<open>s'\<close>.
\<close>

definition no_regress :: "string \<Rightarrow> string \<Rightarrow> bool" where
  "no_regress s s' =
    (s' = s
     \<or> (s = ''pending'' \<and> (s' = ''processing'' \<or> s' = ''completed'' \<or> s' = ''failed''))
     \<or> (s = ''processing'' \<and> (s' = ''completed'' \<or> s' = ''failed'')))"

definition status_of :: "nat \<Rightarrow> server \<Rightarrow> string option" where
  "status_of i s = map_option status (find (\<lambda>j. job_id j = i) (jobs (store s)))"

text \<open>A run in which every PATCH of a job carries a status that the job, as it is when
  the request arrives, may move to.\<close>

fun patches_advance :: "(nat \<times> request) list \<Rightarrow> server \<Rightarrow> bool" where
  "patches_advance [] s = True"
| "patches_advance ((now, PATCH_job i b) # rs) s =
    ((case (b_status b, status_of i s) of
        (Some st, Some cur) \<Rightarrow> no_regress cur st
      | _ \<Rightarrow> True)
     \<and> patches_advance rs (fst (api now (PATCH_job i b) s)))"
| "patches_advance ((now, r) # rs) s = patches_advance rs (fst (api now r s))"






section \<open>Example data\<close>

definition job_row :: "nat \<Rightarrow> string \<Rightarrow> string \<Rightarrow> nat \<Rightarrow> job" where
  "job_row i ty st t =
    \<lparr>job_id = i, job_type = ty, payload = JObj [(''to'', JStr ''+1'')], status = st,
     worker_id = None, result = None, created_at = t, updated_at = t\<rparr>"

definition worker_row :: "nat \<Rightarrow> string \<Rightarrow> worker" where
  "worker_row i ty =
    \<lparr>w_id = i, w_type = ty, w_status = ''idle'', last_active = 0, w_created_at = 0, w_updated_at = 0\<rparr>"

definition empty_db :: database where
  "empty_db = \<lparr>jobs = [], workers = [], jobs_seq = 0, workers_seq = 0\<rparr>"

definition empty_manager :: manager where
  "empty_manager = \<lparr>handles = Map.empty, listeners = Map.empty, spawned = 0, killed = []\<rparr>"

definition empty_server :: server where
  "empty_server = \<lparr>store = empty_db, supervisor = empty_manager\<rparr>"

definition no_effects :: effects where
  "no_effects = \<lparr>calls = [], errors = []\<rparr>"

definition example_db :: database where
  "example_db =
    \<lparr>jobs = [job_row 1 ''email'' ''processing'' 10, job_row 2 ''email'' ''pending'' 30,
             job_row 3 ''email'' ''pending'' 20, job_row 4 ''sms'' ''completed'' 5],
     workers = [worker_row 1 ''email'', worker_row 2 ''sms'', worker_row 3 ''email'',
                worker_row 4 ''email''],
     jobs_seq = 4, workers_seq = 4\<rparr>"

text \<open>Networks for the examples: every call succeeds, or the calls at one site fail.\<close>

definition all_ok :: "site \<Rightarrow> string option" where
  "all_ok c = None"


definition example_payload :: json where
  "example_payload = JObj [(''to'', JStr ''+1'')]"

definition pending_body :: patch_job_body where
  "pending_body = \<lparr>b_status = Some ''pending'', b_workerId = None, b_result = None\<rparr>"

definition cancelled_body :: patch_job_body where
  "cancelled_body = \<lparr>b_status = Some ''cancelled'', b_workerId = None, b_result = None\<rparr>"




definition example_run :: "(nat \<times> request) list" where
  "example_run =
    [(1, POST_jobs (Some ''email'') (Some example_payload)),
     (2, GET_jobs_next ''email''),
     (3, PATCH_job 1 (completed_body (JBool True)))]"

definition example_manager :: manager where
  "example_manager = manager_init example_db empty_manager"

definition example_schedule :: "(caller \<times> nat) list" where
  "example_schedule = [(First, 50), (Second, 50), (Second, 51), (First, 52)]"


section \<open>Properties of the rate limiter\<close>

lemma rate_limiter_keeps_shape:
  "bucket_absent k \<or> (\<exists>tk lr. bucket_holds k tk lr) \<Longrightarrow>
   \<exists>tk lr. bucket_holds (fst (rate_limiter m r e now k)) tk lr"
  by (auto simp: rate_limiter_def bucket_absent_def bucket_holds_def Let_def)

text \<open>
  Claim C5. One invocation of the script with parameters \<open>maxTokens\<close>,
  \<open>refillRate\<close>, \<open>keyExpiry\<close> at server time \<open>now\<close>: when the bucket is
  absent the script stores \<open>tokens = maxTokens - 1\<close> and \<open>last_request = now\<close>,
  sets the time-to-live to \<open>keyExpiry\<close> and answers ALLOW. When the bucket holds
  \<open>(tk, lr)\<close>, let \<open>newTokens = min maxTokens (tk + (now - lr) * refillRate)\<close>;
  if \<open>newTokens > 0\<close> the script stores \<open>(newTokens - 1, now)\<close>, leaves the
  time-to-live alone and answers ALLOW, otherwise it answers DENY and the key is unchanged.
\<close>

theorem rate_limiter_spec:
  "(bucket_absent k \<longrightarrow>
      bucket_holds (fst (rate_limiter maxTokens refillRate keyExpiry now k)) (maxTokens - 1) now
      \<and> ttl (fst (rate_limiter maxTokens refillRate keyExpiry now k)) = Some keyExpiry
      \<and> snd (rate_limiter maxTokens refillRate keyExpiry now k) = ALLOW)
   \<and> (bucket_holds k tk lr \<longrightarrow>
        (let newTokens = min maxTokens (tk + (now - lr) * refillRate)
         in (newTokens > 0 \<longrightarrow>
               bucket_holds (fst (rate_limiter maxTokens refillRate keyExpiry now k)) (newTokens - 1) now
               \<and> ttl (fst (rate_limiter maxTokens refillRate keyExpiry now k)) = ttl k
               \<and> snd (rate_limiter maxTokens refillRate keyExpiry now k) = ALLOW)
          \<and> (newTokens \<le> 0 \<longrightarrow>
               rate_limiter maxTokens refillRate keyExpiry now k = (k, DENY))))"
  by (auto simp: rate_limiter_def bucket_absent_def bucket_holds_def ALLOW_def DENY_def Let_def)

theorem rate_limiter_spec_witness:
  "bucket_absent \<lparr>hash = Map.empty, ttl = None\<rparr>
   \<and> bucket_holds (fst (limiter_api_BMN 100 \<lparr>hash = Map.empty, ttl = None\<rparr>)) 9 100
   \<and> ttl (fst (limiter_api_BMN 100 \<lparr>hash = Map.empty, ttl = None\<rparr>)) = Some 300
   \<and> snd (limiter_api_BMN 100 \<lparr>hash = Map.empty, ttl = None\<rparr>) = ALLOW
   \<and> bucket_holds \<lparr>hash = [''tokens'' \<mapsto> 0, ''last_request'' \<mapsto> 100], ttl = Some 300\<rparr> 0 100
   \<and> limiter_api_BMN 100 \<lparr>hash = [''tokens'' \<mapsto> 0, ''last_request'' \<mapsto> 100], ttl = Some 300\<rparr>
       = (\<lparr>hash = [''tokens'' \<mapsto> 0, ''last_request'' \<mapsto> 100], ttl = Some 300\<rparr>, DENY)
   \<and> bucket_holds
        (fst (limiter_api_BMN 101 \<lparr>hash = [''tokens'' \<mapsto> 0, ''last_request'' \<mapsto> 100], ttl = Some 300\<rparr>))
        4 101
   \<and> snd (limiter_api_BMN 101 \<lparr>hash = [''tokens'' \<mapsto> 0, ''last_request'' \<mapsto> 100], ttl = Some 300\<rparr>)
       = ALLOW"
proof -
  let ?e = "\<lparr>hash = Map.empty, ttl = None\<rparr>"
  let ?k = "\<lparr>hash = [''tokens'' \<mapsto> (0::int), ''last_request'' \<mapsto> 100], ttl = Some (300::int)\<rparr>"
  have a: "bucket_absent ?e"
    by (simp add: bucket_absent_def)
  have h: "bucket_holds ?k 0 100"
    by (simp add: bucket_holds_def)
  show ?thesis
    using a h rate_limiter_spec [of ?e 10 5 300 100 0 0]
      rate_limiter_spec [of ?k 10 5 300 100 0 100]
      rate_limiter_spec [of ?k 10 5 300 101 0 100]
    by (simp add: limiter_api_BMN_def Let_def)
qed



section \<open>Properties of the claim operation\<close>

lemma select_None:
  "(getNextPending_select ty db = None) =
   (\<not> (\<exists>j\<in>set (jobs db). status j = ''pending'' \<and> job_type j = ty))"
proof -
  let ?ps = "filter (\<lambda>j. status j = ''pending'' \<and> job_type j = ty) (jobs db)"
  have "(getNextPending_select ty db = None) = (sort_key created_at ?ps = [])"
    by (cases "sort_key created_at ?ps") (simp_all add: getNextPending_select_def)
  also have "\<dots> = (set (sort_key created_at ?ps) = {})"
    by (simp only: set_empty)
  also have "\<dots> = (set ?ps = {})"
    by (simp only: set_sort)
  also have "\<dots> = (\<not> (\<exists>j\<in>set (jobs db). status j = ''pending'' \<and> job_type j = ty))"
    by (auto simp: filter_empty_conv)
  finally show ?thesis .
qed

lemma select_Some:
  assumes "getNextPending_select ty db = Some c"
  shows "c \<in> set (jobs db)" and "status c = ''pending''" and "job_type c = ty"
    and "\<forall>j\<in>set (jobs db). status j = ''pending'' \<and> job_type j = ty \<longrightarrow> created_at c \<le> created_at j"
proof -
  let ?ps = "filter (\<lambda>j. status j = ''pending'' \<and> job_type j = ty) (jobs db)"
  from assms obtain rest where srt: "sort_key created_at ?ps = c # rest"
    by (auto simp: getNextPending_select_def split: list.splits)
  have "c \<in> set (sort_key created_at ?ps)"
    by (simp add: srt)
  then have mem: "c \<in> set ?ps"
    by (simp only: set_sort)
  then show "c \<in> set (jobs db)" and "status c = ''pending''" and "job_type c = ty"
    by auto
  have "sorted (map created_at (sort_key created_at ?ps))"
    by (rule sorted_sort_key)
  then have le: "\<forall>j\<in>set rest. created_at c \<le> created_at j"
    by (simp add: srt)
  show "\<forall>j\<in>set (jobs db). status j = ''pending'' \<and> job_type j = ty \<longrightarrow> created_at c \<le> created_at j"
  proof (intro ballI impI)
    fix j assume "j \<in> set (jobs db)" and "status j = ''pending'' \<and> job_type j = ty"
    then have "j \<in> set ?ps" by simp
    then have "j \<in> set (sort_key created_at ?ps)" by (simp only: set_sort)
    then have "j = c \<or> j \<in> set rest" by (simp add: srt)
    with le show "created_at c \<le> created_at j" by auto
  qed
qed

lemma update_changes:
  "(snd (getNextPending_update now i db) = 0) =
   (\<not> (\<exists>j\<in>set (jobs db). job_id j = i \<and> status j = ''pending''))"
  by (auto simp: getNextPending_update_def filter_empty_conv)

text \<open>
  Claim C1. A call of \<open>Job.getNextPending\<close> with type \<open>ty\<close>: when the store holds
  no pending job of the type, the result is \<open>null\<close> and the store is untouched. Otherwise
  there is a candidate \<open>c\<close>, a pending job of the type in the store such that no pending
  job of the type has a smaller \<open>created_at\<close>; the \<open>UPDATE\<close> sets the status to
  \<open>processing\<close> exactly in the rows with the candidate's id that are still pending
  when it runs (after whatever other requests did in between); the call returns
  \<open>null\<close> when the \<open>UPDATE\<close> changed no row, that is when there is no such row,
  and the candidate otherwise.
\<close>

theorem getNextPending_spec:
  "(\<not> (\<exists>j\<in>set (jobs db). status j = ''pending'' \<and> job_type j = ty) \<longrightarrow>
      getNextPending others now ty db = (db, None))
   \<and> ((\<exists>j\<in>set (jobs db). status j = ''pending'' \<and> job_type j = ty) \<longrightarrow>
        (\<exists>c. c \<in> set (jobs db) \<and> status c = ''pending'' \<and> job_type c = ty
           \<and> (\<forall>j\<in>set (jobs db). status j = ''pending'' \<and> job_type j = ty
                  \<longrightarrow> created_at c \<le> created_at j)
           \<and> fst (getNextPending others now ty db) =
               (others db)\<lparr>jobs :=
                  map (\<lambda>j. if job_id j = job_id c \<and> status j = ''pending''
                           then j\<lparr>status := ''processing'', updated_at := now\<rparr> else j)
                      (jobs (others db))\<rparr>
           \<and> snd (getNextPending others now ty db) =
               (if snd (getNextPending_update now (job_id c) (others db)) = 0 then None else Some c)
           \<and> snd (getNextPending others now ty db) =
               (if \<exists>j\<in>set (jobs (others db)). job_id j = job_id c \<and> status j = ''pending''
                then Some c else None)))"
proof (intro conjI impI)
  assume "\<not> (\<exists>j\<in>set (jobs db). status j = ''pending'' \<and> job_type j = ty)"
  then have "getNextPending_select ty db = None"
    using select_None [of ty db] by blast
  then show "getNextPending others now ty db = (db, None)"
    by (simp add: getNextPending_def)
next
  assume "\<exists>j\<in>set (jobs db). status j = ''pending'' \<and> job_type j = ty"
  then have "getNextPending_select ty db \<noteq> None"
    using select_None [of ty db] by blast
  then obtain c where c: "getNextPending_select ty db = Some c"
    by auto
  have ch: "(snd (getNextPending_update now (job_id c) (others db)) = 0) =
      (\<not> (\<exists>j\<in>set (jobs (others db)). job_id j = job_id c \<and> status j = ''pending''))"
    by (rule update_changes)
  have f: "fst (getNextPending others now ty db) = fst (getNextPending_update now (job_id c) (others db))"
    by (simp add: getNextPending_def c split: prod.splits)
  have s: "snd (getNextPending others now ty db) =
      (if snd (getNextPending_update now (job_id c) (others db)) = 0 then None else Some c)"
    by (simp add: getNextPending_def c split: prod.splits)
  show "\<exists>c. c \<in> set (jobs db) \<and> status c = ''pending'' \<and> job_type c = ty
           \<and> (\<forall>j\<in>set (jobs db). status j = ''pending'' \<and> job_type j = ty
                  \<longrightarrow> created_at c \<le> created_at j)
           \<and> fst (getNextPending others now ty db) =
               (others db)\<lparr>jobs :=
                  map (\<lambda>j. if job_id j = job_id c \<and> status j = ''pending''
                           then j\<lparr>status := ''processing'', updated_at := now\<rparr> else j)
                      (jobs (others db))\<rparr>
           \<and> snd (getNextPending others now ty db) =
               (if snd (getNextPending_update now (job_id c) (others db)) = 0 then None else Some c)
           \<and> snd (getNextPending others now ty db) =
               (if \<exists>j\<in>set (jobs (others db)). job_id j = job_id c \<and> status j = ''pending''
                then Some c else None)"
  proof (intro exI [of _ c] conjI)
    show "c \<in> set (jobs db)" "status c = ''pending''" "job_type c = ty"
      "\<forall>j\<in>set (jobs db). status j = ''pending'' \<and> job_type j = ty \<longrightarrow> created_at c \<le> created_at j"
      using select_Some [OF c] by blast+
    show "fst (getNextPending others now ty db) =
               (others db)\<lparr>jobs :=
                  map (\<lambda>j. if job_id j = job_id c \<and> status j = ''pending''
                           then j\<lparr>status := ''processing'', updated_at := now\<rparr> else j)
                      (jobs (others db))\<rparr>"
      by (simp add: f getNextPending_update_def)
    show "snd (getNextPending others now ty db) =
               (if snd (getNextPending_update now (job_id c) (others db)) = 0 then None else Some c)"
      by (rule s)
    show "snd (getNextPending others now ty db) =
               (if \<exists>j\<in>set (jobs (others db)). job_id j = job_id c \<and> status j = ''pending''
                then Some c else None)"
      using ch by (simp add: s)
  qed
qed


theorem getNextPending_spec_witness:
  "\<not> (\<exists>j\<in>set (jobs example_db). status j = ''pending'' \<and> job_type j = ''sms'')
   \<and> getNextPending id 50 ''sms'' example_db = (example_db, None)
   \<and> (\<exists>j\<in>set (jobs example_db). status j = ''pending'' \<and> job_type j = ''email'')
   \<and> (\<exists>c. c \<in> set (jobs example_db) \<and> status c = ''pending'' \<and> job_type c = ''email''
          \<and> (\<forall>j\<in>set (jobs example_db). status j = ''pending'' \<and> job_type j = ''email''
                 \<longrightarrow> created_at c \<le> created_at j)
          \<and> snd (getNextPending id 50 ''email'' example_db) =
               (if \<exists>j\<in>set (jobs (id example_db)). job_id j = job_id c \<and> status j = ''pending''
                then Some c else None))
   \<and> snd (getNextPending id 50 ''email'' example_db) = Some (job_row 3 ''email'' ''pending'' 20)
   \<and> snd (getNextPending (job_updateStatus 40 3 ''completed'' None None) 50 ''email'' example_db)
       = None"
proof -
  have n: "\<not> (\<exists>j\<in>set (jobs example_db). status j = ''pending'' \<and> job_type j = ''sms'')"
    by (simp add: example_db_def job_row_def)
  have p: "\<exists>j\<in>set (jobs example_db). status j = ''pending'' \<and> job_type j = ''email''"
    by (simp add: example_db_def job_row_def)
  have e1: "snd (getNextPending id 50 ''email'' example_db) = Some (job_row 3 ''email'' ''pending'' 20)"
    by (simp add: getNextPending_def getNextPending_select_def getNextPending_update_def
        example_db_def job_row_def)
  have e2: "snd (getNextPending (job_updateStatus 40 3 ''completed'' None None) 50 ''email'' example_db)
       = None"
    by (simp add: getNextPending_def getNextPending_select_def getNextPending_update_def
        job_updateStatus_def example_db_def job_row_def)
  from getNextPending_spec [of example_db "''sms''" id 50] n
  have a: "getNextPending id 50 ''sms'' example_db = (example_db, None)"
    by blast
  from getNextPending_spec [of example_db "''email''" id 50] p
  have b: "\<exists>c. c \<in> set (jobs example_db) \<and> status c = ''pending'' \<and> job_type c = ''email''
          \<and> (\<forall>j\<in>set (jobs example_db). status j = ''pending'' \<and> job_type j = ''email''
                 \<longrightarrow> created_at c \<le> created_at j)
          \<and> snd (getNextPending id 50 ''email'' example_db) =
               (if \<exists>j\<in>set (jobs (id example_db)). job_id j = job_id c \<and> status j = ''pending''
                then Some c else None)"
    by blast
  from n a p b e1 e2 show ?thesis
    by blast
qed


section \<open>Properties of the completion handlers\<close>

lemma job_updateStatus_twice:
  "job_updateStatus t2 i st w r (job_updateStatus t1 i st w r d) = job_updateStatus t2 i st w r d"
  by (simp add: job_updateStatus_def)

lemma worker_updateStatus_twice:
  "worker_updateStatus t2 i st (worker_updateStatus t1 i st d) = worker_updateStatus t2 i st d"
  by (simp add: worker_updateStatus_def)

lemma updates_commute:
  "job_updateStatus t i st w r (worker_updateStatus t' i' st' d) =
   worker_updateStatus t' i' st' (job_updateStatus t i st w r d)"
  by (simp add: job_updateStatus_def worker_updateStatus_def)

lemma untimed_handlers:
  "untimed (worker_updateStatus t2 i st (job_updateStatus t2 k st' w r d)) =
   untimed (worker_updateStatus t1 i st (job_updateStatus t1 k st' w r d))"
  by (simp add: job_updateStatus_def worker_updateStatus_def untimed_def)

text \<open>
  Claim C7. The completion handlers are idempotent: handling the same
  \<open>worker:job-complete\<close> (or \<open>worker:job-failed\<close>) event a second time, at time
  \<open>t2\<close>, after handling it at time \<open>t1\<close>, leaves the database exactly as one
  handling at \<open>t2\<close> does, and, but for the bookkeeping timestamps, as the first
  handling left it: the job has the same status, worker and result, the worker is idle.
\<close>

theorem completion_handlers_idempotent:
  "onJobComplete t2 ev (onJobComplete t1 ev d) = onJobComplete t2 ev d
   \<and> onJobFailed t2 ev (onJobFailed t1 ev d) = onJobFailed t2 ev d
   \<and> untimed (onJobComplete t2 ev (onJobComplete t1 ev d)) = untimed (onJobComplete t1 ev d)
   \<and> untimed (onJobFailed t2 ev (onJobFailed t1 ev d)) = untimed (onJobFailed t1 ev d)"
  by (simp add: onJobComplete_def onJobFailed_def updates_commute job_updateStatus_twice
      worker_updateStatus_twice untimed_handlers [of t2 _ _ _ _ _ _ _ t1])



section \<open>What the claim operation returns\<close>

lemma find_map_same_id:
  assumes "\<And>x. k (f x) = k x"
  shows "find (\<lambda>r. k r = i) (map f xs) = map_option f (find (\<lambda>r. k r = i) xs)"
  using assms by (induction xs) auto

lemma find_unique:
  assumes "distinct (map k xs)" and "x \<in> set xs" and "k x = i"
  shows "find (\<lambda>r. k r = i) xs = Some x"
  using assms by (induction xs) (auto simp: image_iff)

lemma get_jobs_next_eq:
  "get_jobs_next now ty s =
   (s\<lparr>store := fst (getNextPending id now ty (store s))\<rparr>,
    Ok_next (snd (getNextPending id now ty (store s))))"
  by (simp add: get_jobs_next_def split: prod.splits)

text \<open>
  Claim C10. When the claim succeeds, the job handed to the caller is the row as the
  \<open>SELECT\<close> read it: a row of the store before the call whose status reads
  \<open>pending\<close>, while the store after the call records \<open>processing\<close> for the job
  with that id. \<open>GET /api/jobs/next/:type\<close> answers with that same object.
\<close>

theorem claimed_job_reads_pending:
  assumes "distinct (map job_id (jobs (others d)))"
    and "getNextPending others now ty d = (d', Some j)"
  shows "j \<in> set (jobs d) \<and> status j = ''pending''
     \<and> map_option status (find (\<lambda>r. job_id r = job_id j) (jobs d')) = Some ''processing''
     \<and> (others = id \<longrightarrow>
          api now (GET_jobs_next ty) \<lparr>store = d, supervisor = m\<rparr> =
            (\<lparr>store = d', supervisor = m\<rparr>, Ok_next (Some j)))"
proof -
  from assms(2) have sel: "getNextPending_select ty d = Some j"
    by (auto simp: getNextPending_def split: option.splits prod.splits if_splits)
  from assms(2) sel have upd: "getNextPending_update now (job_id j) (others d) = (d', snd (getNextPending_update now (job_id j) (others d)))"
    and ch: "snd (getNextPending_update now (job_id j) (others d)) \<noteq> 0"
    by (auto simp: getNextPending_def split: prod.splits if_splits)
  from ch have "\<exists>r\<in>set (jobs (others d)). job_id r = job_id j \<and> status r = ''pending''"
    by (simp add: update_changes)
  then obtain r where r: "r \<in> set (jobs (others d))" "job_id r = job_id j" "status r = ''pending''"
    by auto
  have fr: "find (\<lambda>x. job_id x = job_id j) (jobs (others d)) = Some r"
    using assms(1) r(1,2) by (rule find_unique)
  let ?f = "\<lambda>x. if job_id x = job_id j \<and> status x = ''pending''
                 then x\<lparr>status := ''processing'', updated_at := now\<rparr> else x"
  from upd have "d' = fst (getNextPending_update now (job_id j) (others d))"
    by (metis fst_conv)
  then have d': "jobs d' = map ?f (jobs (others d))"
    by (simp add: getNextPending_update_def)
  have "find (\<lambda>x. job_id x = job_id j) (jobs d') = map_option ?f (find (\<lambda>x. job_id x = job_id j) (jobs (others d)))"
    unfolding d' by (rule find_map_same_id) simp
  then have "map_option status (find (\<lambda>x. job_id x = job_id j) (jobs d')) = Some ''processing''"
    using fr r by simp
  moreover from select_Some [OF sel] have "j \<in> set (jobs d)" "status j = ''pending''"
    by blast+
  moreover have "others = id \<longrightarrow>
          api now (GET_jobs_next ty) \<lparr>store = d, supervisor = m\<rparr> =
            (\<lparr>store = d', supervisor = m\<rparr>, Ok_next (Some j))"
    using assms(2) by (auto simp: get_jobs_next_eq)
  ultimately show ?thesis by blast
qed

theorem claimed_job_reads_pending_witness:
  "distinct (map job_id (jobs (id example_db)))
   \<and> snd (getNextPending id 50 ''email'' example_db) = Some (job_row 3 ''email'' ''pending'' 20)
   \<and> status (job_row 3 ''email'' ''pending'' 20) = ''pending''
   \<and> map_option status (find (\<lambda>r. job_id r = 3)
         (jobs (fst (getNextPending id 50 ''email'' example_db)))) = Some ''processing''
   \<and> snd (api 50 (GET_jobs_next ''email'') \<lparr>store = example_db, supervisor = empty_manager\<rparr>)
       = Ok_next (Some (job_row 3 ''email'' ''pending'' 20))"
proof -
  let ?d' = "fst (getNextPending id 50 ''email'' example_db)"
  let ?j = "job_row 3 ''email'' ''pending'' 20"
  have ds: "distinct (map job_id (jobs (id example_db)))"
    by (simp add: example_db_def job_row_def)
  have s: "snd (getNextPending id 50 ''email'' example_db) = Some ?j"
    by (simp add: getNextPending_def getNextPending_select_def getNextPending_update_def
        example_db_def job_row_def)
  then have r: "getNextPending id 50 ''email'' example_db = (?d', Some ?j)"
    by (metis prod.collapse)
  have i: "job_id ?j = 3"
    by (simp add: job_row_def)
  from claimed_job_reads_pending [OF ds r, of empty_manager] ds s i show ?thesis
    by simp
qed



section \<open>Failures of PATCH and PUBLISH inside the worker\<close>

lemma attempt_eq:
  "attempt net c x e = (e\<lparr>calls := calls e @ [x], errors := errors e @ logged net c\<rparr>, net c)"
  by (cases "net c") (simp_all add: attempt_def perform_def logged_def)

lemma processJob_catch_eq:
  "processJob_catch net wid jid msg e =
    (e\<lparr>calls := calls e @ failure_calls wid jid msg,
       errors := errors e @ failure_log net msg\<rparr>, Inl msg)"
  by (simp add: processJob_catch_def attempt_eq failure_calls_def failure_log_def)

lemma processJob_completed_ok:
  assumes "net Patch_job_processing = None" and "net Patch_worker_busy = None"
    and "net Patch_job_completed = None"
  shows "processJob net (Inr v) wid jid e =
    (e\<lparr>calls := calls e @
          [HTTP_PATCH_job jid (processing_body wid), HTTP_PATCH_worker wid ''busy'', RUN_adapter,
           HTTP_PATCH_job jid (completed_body v), HTTP_PATCH_worker wid ''idle'',
           PUBLISH_job_complete \<lparr>jobId = jid, workerId = wid, e_result = Some v, e_error = None\<rparr>],
       errors := errors e @ logged net Patch_worker_idle @ logged net Publish_job_complete\<rparr>,
     Inr v)"
  using assms by (simp add: processJob_def attempt_eq logged_def)




lemma processJob_completed_fails:
  assumes "net Patch_job_processing = None" and "net Patch_worker_busy = None"
    and "net Patch_job_completed = Some msg"
  shows "processJob net (Inr v) wid jid e =
    (e\<lparr>calls := calls e @ HTTP_PATCH_job jid (processing_body wid)
                # HTTP_PATCH_worker wid ''busy'' # RUN_adapter
                # HTTP_PATCH_job jid (completed_body v) # failure_calls wid jid msg,
       errors := errors e @ Call_failed Patch_job_completed msg # failure_log net msg\<rparr>,
     Inl msg)"
  using assms by (simp add: processJob_def attempt_eq processJob_catch_eq logged_def)






section \<open>Updating a job is a full overwrite\<close>

lemma patch_job_with_status:
  "b_status b = Some st \<Longrightarrow>
   fst (api now (PATCH_job i b) s) =
     s\<lparr>store := job_updateStatus now i st (b_workerId b) (b_result b) (store s)\<rparr>"
  by (simp add: patch_job_def)

lemma job_updateStatus_row:
  assumes "j \<in> set (jobs (job_updateStatus now i st wid res d))" and "job_id j = i"
  shows "status j = st \<and> worker_id j = wid \<and> (res = None \<longrightarrow> result j = None) \<and> updated_at j = now"
proof -
  let ?f = "\<lambda>j. if job_id j = i
                 then j\<lparr>status := st, worker_id := wid,
                        result := (case res of None \<Rightarrow> None
                                   | Some v \<Rightarrow> if truthy v then Some v else None),
                        updated_at := now\<rparr>
                 else j"
  from assms(1) have "j \<in> ?f ` set (jobs d)"
    by (simp add: job_updateStatus_def)
  then obtain x where x: "j = ?f x"
    by (rule imageE)
  show ?thesis
  proof (cases "job_id x = i")
    case True
    with x have "j = x\<lparr>status := st, worker_id := wid,
                        result := (case res of None \<Rightarrow> None
                                   | Some v \<Rightarrow> if truthy v then Some v else None),
                        updated_at := now\<rparr>"
      by simp
    then show ?thesis
      by simp
  next
    case False
    with x have "j = x" by simp
    with False assms(2) show ?thesis by simp
  qed
qed

lemma job_updateStatus_ids:
  "map job_id (jobs (job_updateStatus now i st wid res d)) = map job_id (jobs d)"
  by (simp add: job_updateStatus_def comp_def)

lemma processJob_sends_completed:
  assumes "net Patch_job_processing = None" and "net Patch_worker_busy = None"
  shows "HTTP_PATCH_job jid (completed_body v) \<in> set (calls (fst (processJob net (Inr v) wid jid e)))"
  using assms
  by (cases "net Patch_job_completed")
    (simp_all add: processJob_completed_ok processJob_completed_fails)

text \<open>
  Claim C9. \<open>Job.updateStatus\<close> overwrites: every row with the id gets the status,
  the \<open>workerId\<close> and the \<open>result\<close> of the call, whatever it held before, so a
  \<open>workerId\<close> or \<open>result\<close> that is left out sets the column to NULL; no row is added
  or removed. \<open>PATCH /api/jobs/:id\<close> with a status is that call with the properties
  of the body. The PATCH that \<open>processJob\<close> sends after the adapter has succeeded
  carries no \<open>workerId\<close>, and serving it leaves the job completed with
  \<open>worker_id\<close> NULL.
\<close>

theorem updateStatus_overwrites:
  "(\<forall>j\<in>set (jobs (job_updateStatus now i st wid res d)).
       job_id j = i \<longrightarrow>
         status j = st \<and> worker_id j = wid \<and> (res = None \<longrightarrow> result j = None)
         \<and> updated_at j = now)
   \<and> map job_id (jobs (job_updateStatus now i st wid res d)) = map job_id (jobs d)
   \<and> (b_status b = Some st \<longrightarrow>
        fst (api now (PATCH_job i b) s) =
          s\<lparr>store := job_updateStatus now i st (b_workerId b) (b_result b) (store s)\<rparr>)
   \<and> (net Patch_job_processing = None \<and> net Patch_worker_busy = None \<longrightarrow>
        HTTP_PATCH_job i (completed_body v)
          \<in> set (calls (fst (processJob net (Inr v) w i no_effects))))
   \<and> b_workerId (completed_body v) = None
   \<and> (\<forall>j\<in>set (jobs (store (fst (api now (PATCH_job i (completed_body v)) s)))).
        job_id j = i \<longrightarrow> worker_id j = None \<and> status j = ''completed'')"
proof (intro conjI)
  show "\<forall>j\<in>set (jobs (job_updateStatus now i st wid res d)).
       job_id j = i \<longrightarrow>
         status j = st \<and> worker_id j = wid \<and> (res = None \<longrightarrow> result j = None)
         \<and> updated_at j = now"
    by (intro ballI impI) (rule job_updateStatus_row)
  show "map job_id (jobs (job_updateStatus now i st wid res d)) = map job_id (jobs d)"
    by (rule job_updateStatus_ids)
  show "b_status b = Some st \<longrightarrow>
        fst (api now (PATCH_job i b) s) =
          s\<lparr>store := job_updateStatus now i st (b_workerId b) (b_result b) (store s)\<rparr>"
    by (intro impI) (rule patch_job_with_status)
  show "net Patch_job_processing = None \<and> net Patch_worker_busy = None \<longrightarrow>
        HTTP_PATCH_job i (completed_body v)
          \<in> set (calls (fst (processJob net (Inr v) w i no_effects)))"
    by (intro impI, elim conjE) (rule processJob_sends_completed)
  show "b_workerId (completed_body v) = None"
    by (simp add: completed_body_def)
  have "b_status (completed_body v) = Some ''completed''"
    by (simp add: completed_body_def)
  then have "fst (api now (PATCH_job i (completed_body v)) s) =
      s\<lparr>store := job_updateStatus now i ''completed''
                    (b_workerId (completed_body v)) (b_result (completed_body v)) (store s)\<rparr>"
    by (rule patch_job_with_status)
  then have st: "store (fst (api now (PATCH_job i (completed_body v)) s)) =
      job_updateStatus now i ''completed'' None (Some v) (store s)"
    by (simp add: completed_body_def)
  show "\<forall>j\<in>set (jobs (store (fst (api now (PATCH_job i (completed_body v)) s)))).
        job_id j = i \<longrightarrow> worker_id j = None \<and> status j = ''completed''"
    unfolding st by (intro ballI impI) (simp add: job_updateStatus_row)
qed

theorem updateStatus_overwrites_witness:
  "job_row 2 ''email'' ''processing'' 30 \<lparr>worker_id := Some 3, result := Some (JStr ''x''), updated_at := 40\<rparr>
       \<in> set (jobs (job_updateStatus 40 2 ''processing'' (Some 3) (Some (JStr ''x'')) example_db))
   \<and> b_status (completed_body (JBool True)) = Some ''completed''
   \<and> all_ok Patch_job_processing = None \<and> all_ok Patch_worker_busy = None
   \<and> HTTP_PATCH_job 2 (completed_body (JBool True))
        \<in> set (calls (fst (processJob all_ok (Inr (JBool True)) 3 2 no_effects)))
   \<and> jobs (store (fst (api 60 (PATCH_job 2 (completed_body (JBool True)))
         \<lparr>store = job_updateStatus 40 2 ''processing'' (Some 3) (Some (JStr ''x'')) example_db,
          supervisor = empty_manager\<rparr>)))
       = [job_row 1 ''email'' ''processing'' 10,
          job_row 2 ''email'' ''completed'' 30 \<lparr>worker_id := None, result := Some (JBool True), updated_at := 60\<rparr>,
          job_row 3 ''email'' ''pending'' 20, job_row 4 ''sms'' ''completed'' 5]"
proof -
  let ?s = "\<lparr>store = job_updateStatus 40 2 ''processing'' (Some 3) (Some (JStr ''x'')) example_db,
          supervisor = empty_manager\<rparr>"
  have a: "all_ok Patch_job_processing = None \<and> all_ok Patch_worker_busy = None"
    by (simp add: all_ok_def)
  have b: "b_status (completed_body (JBool True)) = Some ''completed''"
    by (simp add: completed_body_def)
  have m: "job_row 2 ''email'' ''processing'' 30 \<lparr>worker_id := Some 3, result := Some (JStr ''x''), updated_at := 40\<rparr>
       \<in> set (jobs (job_updateStatus 40 2 ''processing'' (Some 3) (Some (JStr ''x'')) example_db))"
    by (simp add: job_updateStatus_def example_db_def job_row_def)
  have e: "jobs (store (fst (api 60 (PATCH_job 2 (completed_body (JBool True))) ?s)))
       = [job_row 1 ''email'' ''processing'' 10,
          job_row 2 ''email'' ''completed'' 30 \<lparr>worker_id := None, result := Some (JBool True), updated_at := 60\<rparr>,
          job_row 3 ''email'' ''pending'' 20, job_row 4 ''sms'' ''completed'' 5]"
    by (simp add: patch_job_def completed_body_def job_updateStatus_def example_db_def job_row_def)
  from updateStatus_overwrites [where now = 60 and i = 2 and st = "''completed''" and wid = None
      and res = "Some (JBool True)" and d = "store ?s" and b = "completed_body (JBool True)"
      and s = ?s and net = all_ok and v = "JBool True" and w = 3] a b m e
  show ?thesis
    by (simp del: api.simps)
qed


section \<open>What a request does to the table of jobs\<close>

lemma find_snoc:
  "find P (xs @ [x]) = (case find P xs of Some y \<Rightarrow> Some y | None \<Rightarrow> if P x then Some x else None)"
  by (induction xs) simp_all

lemma createWorker_jobs:
  "jobs (fst (fst (createWorker now ty dm))) = jobs (fst dm)"
  by (simp add: createWorker_def worker_create_def Let_def)

lemma fold_createWorker_jobs:
  "jobs (fst (fold (\<lambda>_ s. fst (createWorker now ty s)) xs dm)) = jobs (fst dm)"
  by (induction xs arbitrary: dm) (simp_all add: createWorker_jobs)

lemma scaleWorkers_jobs:
  "jobs (fst (scaleWorkers now ty c dm)) = jobs (fst dm)"
  by (simp add: scaleWorkers_def Let_def fold_createWorker_jobs)

text \<open>What one request does to the table of jobs.\<close>

lemma post_jobs_jobs:
  "jobs (store (fst (post_jobs now ty pl s))) = jobs (store s)
   \<or> (\<exists>row. status row = ''pending'' \<and> jobs (store (fst (post_jobs now ty pl s))) = jobs (store s) @ [row])"
  by (simp add: post_jobs_def job_create_def Let_def split: option.splits)

lemma patch_job_jobs:
  "jobs (store (fst (patch_job now i b s))) =
    (case b_status b of
       None \<Rightarrow> jobs (store s)
     | Some st \<Rightarrow> jobs (job_updateStatus now i st (b_workerId b) (b_result b) (store s)))"
  by (simp add: patch_job_def split: option.splits)

lemma get_jobs_next_jobs:
  "jobs (store (fst (get_jobs_next now ty s))) =
    (case getNextPending_select ty (store s) of
       None \<Rightarrow> jobs (store s)
     | Some c \<Rightarrow>
         map (\<lambda>j. if job_id j = job_id c \<and> status j = ''pending''
                  then j\<lparr>status := ''processing'', updated_at := now\<rparr> else j)
             (jobs (store s)))"
  by (simp add: get_jobs_next_def getNextPending_def getNextPending_update_def
      split: option.splits prod.splits)

lemma other_requests_jobs:
  "jobs (store (fst (get_job i s))) = jobs (store s)"
  "jobs (store (fst (post_workers now ty s))) = jobs (store s)"
  "jobs (store (fst (get_worker i s))) = jobs (store s)"
  "jobs (store (fst (delete_worker i s))) = jobs (store s)"
  "jobs (store (fst (patch_worker now i st s))) = jobs (store s)"
  "jobs (store (fst (post_workers_scale now ty cnt s))) = jobs (store s)"
  "jobs (store (fst (get_stats later s))) = jobs (store s)"
proof -
  show "jobs (store (fst (get_job i s))) = jobs (store s)"
    by (simp add: get_job_def split: option.splits)
  show "jobs (store (fst (post_workers now ty s))) = jobs (store s)"
    using createWorker_jobs [of now _ "(store s, supervisor s)"]
    by (simp add: post_workers_def split: option.splits prod.splits) (metis fst_conv)
  show "jobs (store (fst (get_worker i s))) = jobs (store s)"
    by (simp add: get_worker_def split: option.splits)
  show "jobs (store (fst (delete_worker i s))) = jobs (store s)"
    by (simp add: delete_worker_def split: prod.splits)
  show "jobs (store (fst (patch_worker now i st s))) = jobs (store s)"
    by (simp add: patch_worker_def worker_updateStatus_def split: option.splits)
  show "jobs (store (fst (post_workers_scale now ty cnt s))) = jobs (store s)"
    using scaleWorkers_jobs [of now _ _ "(store s, supervisor s)"]
    by (simp add: post_workers_scale_def split: option.splits prod.splits) (metis fst_conv)
  show "jobs (store (fst (get_stats later s))) = jobs (store s)"
    by (simp add: get_stats_def Let_def)
qed


text \<open>The definitions needed to evaluate a run of the interface.\<close>

lemmas run_eval =
  post_jobs_def job_create_def next_rowid_def get_jobs_next_def getNextPending_def
  getNextPending_select_def getNextPending_update_def patch_job_def job_updateStatus_def
  jobTypes_def is_object_def is_array_def no_keys_def status_of_def
  empty_server_def empty_db_def empty_manager_def example_run_def example_payload_def
  completed_body_def pending_body_def cancelled_body_def



section \<open>The status of a job along a run of the interface\<close>

lemma no_regress_refl: "no_regress s s"
  by (simp add: no_regress_def)

lemma one_way_trans:
  assumes "b = a \<or> (a = p \<and> (b = q \<or> b = c \<or> b = f)) \<or> (a = q \<and> (b = c \<or> b = f))"
    and "x = b \<or> (b = p \<and> (x = q \<or> x = c \<or> x = f)) \<or> (b = q \<and> (x = c \<or> x = f))"
  shows "x = a \<or> (a = p \<and> (x = q \<or> x = c \<or> x = f)) \<or> (a = q \<and> (x = c \<or> x = f))"
  using assms by blast

lemma no_regress_trans: "no_regress a b \<Longrightarrow> no_regress b c \<Longrightarrow> no_regress a c"
  unfolding no_regress_def by (rule one_way_trans)

lemma status_of_eq:
  "jobs (store s') = jobs (store s) \<Longrightarrow> status_of i s' = status_of i s"
  by (simp add: status_of_def)

lemma status_of_snoc:
  assumes "status_of i s = Some st" and "jobs (store s') = jobs (store s) @ [row]"
  shows "status_of i s' = Some st"
  using assms by (auto simp: status_of_def find_snoc split: option.splits)

lemma status_of_map:
  assumes "jobs (store s') = map f (jobs (store s))" and "\<And>x. job_id (f x) = job_id x"
  shows "status_of i s' = map_option (\<lambda>x. status (f x)) (find (\<lambda>j. job_id j = i) (jobs (store s)))"
  using assms(2) by (simp add: status_of_def assms(1) find_map_same_id option.map_comp comp_def)

lemma find_holds: "find P xs = Some x \<Longrightarrow> P x"
  by (induction xs) (simp_all split: if_splits)


lemma status_post_jobs:
  assumes "status_of i s = Some st"
  shows "status_of i (fst (post_jobs now ty pl s)) = Some st"
  using post_jobs_jobs [of now ty pl s]
proof (elim disjE exE conjE)
  assume "jobs (store (fst (post_jobs now ty pl s))) = jobs (store s)"
  then have "status_of i (fst (post_jobs now ty pl s)) = status_of i s"
    by (rule status_of_eq)
  then show ?thesis using assms(1) by simp
next
  fix row assume "jobs (store (fst (post_jobs now ty pl s))) = jobs (store s) @ [row]"
  with assms(1) show ?thesis by (rule status_of_snoc)
qed

lemma status_step:
  assumes "status_of i s = Some st"
    and "case r of
           PATCH_job k b \<Rightarrow> (case (b_status b, status_of k s) of
                               (Some st', Some cur) \<Rightarrow> no_regress cur st'
                             | _ \<Rightarrow> True)
         | _ \<Rightarrow> True"
  shows "\<exists>st'. status_of i (fst (api now r s)) = Some st' \<and> no_regress st st'"
proof -
  have keep: ?thesis if "status_of i (fst (api now r s)) = Some st"
    using that by (simp add: no_regress_refl)
  have same: ?thesis if "jobs (store (fst (api now r s))) = jobs (store s)"
  proof -
    from that have "status_of i (fst (api now r s)) = status_of i s"
      by (rule status_of_eq)
    with assms(1) show ?thesis by (intro keep) simp
  qed
  from assms(1) obtain x where x: "find (\<lambda>j. job_id j = i) (jobs (store s)) = Some x"
    and sx: "status x = st"
    unfolding status_of_def by (cases "find (\<lambda>j. job_id j = i) (jobs (store s))") simp_all
  from x have xi: "job_id x = i"
    by (rule find_holds)
  show ?thesis
  proof (cases r)
    case (POST_jobs ty pl)
    from assms(1) have "status_of i (fst (post_jobs now ty pl s)) = Some st"
      by (rule status_post_jobs)
    then show ?thesis by (intro keep) (simp add: POST_jobs)
  next
    case (PATCH_job k b)
    show ?thesis
    proof (cases "b_status b")
      case None
      then have "jobs (store (fst (patch_job now k b s))) = jobs (store s)"
        by (simp add: patch_job_jobs)
      then show ?thesis by (intro same) (simp add: PATCH_job)
    next
      case (Some st')
      let ?f = "\<lambda>j. if job_id j = k
                   then j\<lparr>status := st', worker_id := b_workerId b,
                          result := (case b_result b of None \<Rightarrow> None
                                     | Some v \<Rightarrow> if truthy v then Some v else None),
                          updated_at := now\<rparr>
                   else j"
      from Some have j: "jobs (store (fst (patch_job now k b s))) = map ?f (jobs (store s))"
        by (simp add: patch_job_jobs job_updateStatus_def)
      have so: "status_of i (fst (patch_job now k b s)) = Some (status (?f x))"
        using status_of_map [OF j, of i] x by simp
      show ?thesis
      proof (cases "k = i")
        case True
        from assms(2) have "no_regress st st'"
          by (simp add: PATCH_job Some True assms(1))
        moreover from True xi so have "status_of i (fst (api now r s)) = Some st'"
          by (simp add: PATCH_job)
        ultimately show ?thesis by simp
      next
        case False
        with xi so sx have "status_of i (fst (patch_job now k b s)) = Some st"
          by simp
        then show ?thesis by (intro keep) (simp add: PATCH_job)
      qed
    qed
  next
    case (GET_jobs_next ty)
    show ?thesis
    proof (cases "getNextPending_select ty (store s)")
      case None
      then have "jobs (store (fst (get_jobs_next now ty s))) = jobs (store s)"
        by (simp add: get_jobs_next_jobs)
      then show ?thesis by (intro same) (simp add: GET_jobs_next)
    next
      case (Some c)
      let ?f = "\<lambda>j. if job_id j = job_id c \<and> status j = ''pending''
                    then j\<lparr>status := ''processing'', updated_at := now\<rparr> else j"
      from Some have j: "jobs (store (fst (get_jobs_next now ty s))) = map ?f (jobs (store s))"
        by (simp add: get_jobs_next_jobs)
      have so: "status_of i (fst (get_jobs_next now ty s)) = Some (status (?f x))"
        using status_of_map [OF j, of i] x by simp
      have "no_regress (status x) (status (?f x))"
        by (simp add: no_regress_def)
      with so sx show ?thesis by (simp add: GET_jobs_next)
    qed
  next
    case (GET_job k)
    show ?thesis by (intro same) (simp add: GET_job other_requests_jobs)
  next
    case (POST_workers ty)
    show ?thesis by (intro same) (simp add: POST_workers other_requests_jobs)
  next
    case (GET_worker k)
    show ?thesis by (intro same) (simp add: GET_worker other_requests_jobs)
  next
    case (DELETE_worker k)
    show ?thesis by (intro same) (simp add: DELETE_worker other_requests_jobs)
  next
    case (PATCH_worker k st')
    show ?thesis by (intro same) (simp add: PATCH_worker other_requests_jobs)
  next
    case (POST_workers_scale ty cnt)
    show ?thesis by (intro same) (simp add: POST_workers_scale other_requests_jobs)
  next
    case GET_stats
    show ?thesis by (intro same) (simp add: GET_stats other_requests_jobs)
  qed
qed

lemma patches_advance_Cons:
  "patches_advance ((now, r) # rs) s =
    ((case r of
        PATCH_job k b \<Rightarrow> (case (b_status b, status_of k s) of
                            (Some st', Some cur) \<Rightarrow> no_regress cur st'
                          | _ \<Rightarrow> True)
      | _ \<Rightarrow> True)
     \<and> patches_advance rs (fst (api now r s)))"
  by (cases r) simp_all

text \<open>
  Claim C3, as the specification states it, fails: a job that was created, claimed and
  completed through the interface is set back to pending by one more PATCH.
\<close>

theorem completed_job_patched_back_to_pending:
  "status_of 1 (api_run example_run empty_server) = Some ''completed''
   \<and> status_of 1 (api_run (example_run @ [(4, PATCH_job 1 pending_body)]) empty_server)
       = Some ''pending''
   \<and> \<not> no_regress ''completed'' ''pending''"
  by (simp add: run_eval no_regress_def)

text \<open>
  Claim C3, amended. \<open>Job.updateStatus\<close> writes whatever status it is given, so the
  order of the states is kept only as far as the callers of PATCH keep it: along every
  run of the interface in which each \<open>PATCH /api/jobs/:id\<close> carries a status that the
  job, as it is when the request arrives, may move to, a job that is in the store stays
  in the store and its status never regresses. Creating jobs, claiming them (which only
  moves a pending job to processing) and all other requests keep the order by
  themselves.
\<close>

theorem status_never_regresses:
  assumes "patches_advance rs s" and "status_of i s = Some st"
  shows "\<exists>st'. status_of i (api_run rs s) = Some st' \<and> no_regress st st'"
  using assms
proof (induction rs arbitrary: s st)
  case Nil
  then show ?case by (simp add: no_regress_refl)
next
  case (Cons x rs)
  obtain now r where x: "x = (now, r)"
    by (cases x)
  from Cons.prems(1) have g: "case r of
        PATCH_job k b \<Rightarrow> (case (b_status b, status_of k s) of
                            (Some st', Some cur) \<Rightarrow> no_regress cur st'
                          | _ \<Rightarrow> True)
      | _ \<Rightarrow> True"
    and rest: "patches_advance rs (fst (api now r s))"
    unfolding x patches_advance_Cons by blast+
  from status_step [OF Cons.prems(2) g, of now]
  obtain st1 where s1: "status_of i (fst (api now r s)) = Some st1" and r1: "no_regress st st1"
    by blast
  from Cons.IH [OF rest s1]
  obtain st2 where s2: "status_of i (api_run rs (fst (api now r s))) = Some st2"
    and r2: "no_regress st1 st2"
    by blast
  from r1 r2 have "no_regress st st2"
    by (rule no_regress_trans)
  with s2 show ?case
    unfolding x by simp
qed

theorem status_never_regresses_witness:
  "patches_advance example_run empty_server
   \<and> status_of 1 (api_run [(1, POST_jobs (Some ''email'') (Some example_payload))] empty_server)
       = Some ''pending''
   \<and> patches_advance (tl example_run)
        (api_run [(1, POST_jobs (Some ''email'') (Some example_payload))] empty_server)
   \<and> (\<exists>st'. status_of 1 (api_run (tl example_run)
           (api_run [(1, POST_jobs (Some ''email'') (Some example_payload))] empty_server)) = Some st'
         \<and> no_regress ''pending'' st')
   \<and> status_of 1 (api_run example_run empty_server) = Some ''completed''"
proof -
  let ?s = "api_run [(1, POST_jobs (Some ''email'') (Some example_payload))] empty_server"
  have a: "patches_advance example_run empty_server"
    by (simp add: run_eval no_regress_def)
  have b: "patches_advance (tl example_run) ?s"
    by (simp add: run_eval no_regress_def)
  have c: "status_of 1 ?s = Some ''pending''"
    by (simp add: run_eval)
  have d: "status_of 1 (api_run example_run empty_server) = Some ''completed''"
    by (simp add: run_eval)
  from status_never_regresses [OF b c] a b c d show ?thesis
    by blast
qed



section \<open>The counts of the statistics\<close>













section \<open>Two claims racing for a job\<close>

text \<open>The two steps of a call, taken one after the other, are the method itself.\<close>

lemma claim_steps_compose:
  "fst (claim_step now ty (claim_step t ty (d, Start))) = fst (getNextPending id now ty d)
   \<and> returned (snd (claim_step now ty (claim_step t ty (d, Start)))) =
       snd (getNextPending id now ty d)"
proof (cases "getNextPending_select ty d")
  case None
  then show ?thesis
    by (simp add: getNextPending_def returned_def)
next
  case (Some j)
  then show ?thesis
    by (simp add: getNextPending_def returned_def case_prod_beta)
qed

lemma won_simps:
  "won Start i = False" "won (Selected j) i = False" "won (Finished c None) i = False"
  "won (Finished c (Some j)) i = (job_id j = i)"
  by (simp_all add: won_def returned_def)

lemma holding_simps:
  "holding Start i = False" "holding (Selected j) i = (job_id j = i)"
  "holding (Finished c r) i = False"
  by (simp_all add: holding_def)

lemma lost_simps:
  "lost Start i = False" "lost (Selected j) i = False" "lost (Finished None r) i = False"
  "lost (Finished c (Some j)) i = False" "lost (Finished (Some j) None) i = (job_id j = i)"
  by (simp_all add: lost_def split: option.splits)

lemma update_ids:
  "map job_id (jobs (fst (getNextPending_update now i d))) = map job_id (jobs d)"
  by (simp add: getNextPending_update_def comp_def)

lemma bex_map: "(\<exists>r\<in>set (map f xs). P r) = (\<exists>r\<in>set xs. P (f r))"
  by (induction xs) simp_all

lemma update_pending_in:
  "pending_in (fst (getNextPending_update now i d)) k = (pending_in d k \<and> k \<noteq> i)"
proof -
  let ?f = "\<lambda>j. if job_id j = i \<and> status j = ''pending''
                then j\<lparr>status := ''processing'', updated_at := now\<rparr> else j"
  have f: "job_id (?f r) = k \<and> status (?f r) = ''pending'' \<longleftrightarrow>
           (job_id r = k \<and> status r = ''pending'') \<and> k \<noteq> i" for r
    by (cases "job_id r = i \<and> status r = ''pending''") auto
  have j: "jobs (fst (getNextPending_update now i d)) = map ?f (jobs d)"
    by (simp add: getNextPending_update_def)
  have "pending_in (fst (getNextPending_update now i d)) k =
        (\<exists>r\<in>set (jobs d). job_id (?f r) = k \<and> status (?f r) = ''pending'')"
    unfolding pending_in_def j by (rule bex_map)
  also have "\<dots> = (\<exists>r\<in>set (jobs d). (job_id r = k \<and> status r = ''pending'') \<and> k \<noteq> i)"
    by (simp only: f)
  also have "\<dots> = (pending_in d k \<and> k \<noteq> i)"
    unfolding pending_in_def by blast
  finally show ?thesis .
qed

lemma update_changes_pending:
  "(snd (getNextPending_update now i d) = 0) = (\<not> pending_in d i)"
  by (simp add: update_changes pending_in_def)

lemma select_pending_in:
  "getNextPending_select ty d = Some j \<Longrightarrow> pending_in d (job_id j)"
  using select_Some [of ty d j] by (auto simp: pending_in_def)


lemma claim_step_Selected:
  "claim_step now ty (d, Selected j) =
    (fst (getNextPending_update now (job_id j) d),
     Finished (Some j) (if pending_in d (job_id j) then Some j else None))"
proof (cases "getNextPending_update now (job_id j) d")
  case (Pair d' changes)
  with update_changes_pending [of now "job_id j" d] have "(changes = 0) = (\<not> pending_in d (job_id j))"
    by simp
  with Pair show ?thesis
    by simp
qed

lemma claim_step_Start:
  "claim_step now ty (d, Start) =
    (d, case getNextPending_select ty d of None \<Rightarrow> Finished None None | Some j \<Rightarrow> Selected j)"
  by (simp split: option.splits)

lemma claim_step_keeps:
  assumes "distinct (map job_id (jobs d))" and "consistent p"
    and "claims_agree d p q" and "claims_agree d q p"
  shows "distinct (map job_id (jobs (fst (claim_step now ty (d, p)))))
     \<and> consistent (snd (claim_step now ty (d, p)))
     \<and> claims_agree (fst (claim_step now ty (d, p))) (snd (claim_step now ty (d, p))) q
     \<and> claims_agree (fst (claim_step now ty (d, p))) q (snd (claim_step now ty (d, p)))"
proof (cases p)
  case Start
  show ?thesis
  proof (cases "getNextPending_select ty d")
    case None
    with assms Start show ?thesis
      by (simp add: claim_step_Start consistent_def claims_agree_def won_simps holding_simps
          lost_simps del: claim_step.simps)
  next
    case (Some j)
    then have "pending_in d (job_id j)"
      by (rule select_pending_in)
    with assms Start Some show ?thesis
      by (simp add: claim_step_Start consistent_def claims_agree_def won_simps holding_simps
          lost_simps del: claim_step.simps)
  qed
next
  case (Selected j)
  let ?d' = "fst (getNextPending_update now (job_id j) d)"
  have ids: "distinct (map job_id (jobs ?d'))"
    using assms(1) by (simp only: update_ids)
  show ?thesis
  proof (cases "pending_in d (job_id j)")
    case True
    from assms(4) True have nq: "\<not> won q (job_id j)"
      unfolding claims_agree_def by blast
    from assms(4) have q: "\<And>i. holding q i \<Longrightarrow> pending_in d i"
      "\<And>i. won q i \<Longrightarrow> \<not> pending_in d i" "\<And>i. \<not> lost q i"
      unfolding claims_agree_def Selected by (simp_all add: won_simps)
    have a: "claims_agree ?d' (Finished (Some j) (Some j)) q"
      unfolding claims_agree_def using nq
      by (simp add: won_simps holding_simps lost_simps update_pending_in)
    have b: "claims_agree ?d' q (Finished (Some j) (Some j))"
      unfolding claims_agree_def using q True
      by (auto simp: won_simps update_pending_in)
    from ids a b True show ?thesis
      by (simp add: Selected claim_step_Selected consistent_def del: claim_step.simps)
  next
    case False
    then have same: "\<And>k. pending_in ?d' k = pending_in d k"
      by (auto simp: update_pending_in)
    from assms(3) have "holding p (job_id j) \<longrightarrow> pending_in d (job_id j) \<or> won q (job_id j)"
      unfolding claims_agree_def by blast
    with False have wq: "won q (job_id j)"
      by (simp add: Selected holding_simps)
    have a: "claims_agree ?d' (Finished (Some j) None) q"
      unfolding claims_agree_def using wq
      by (simp add: won_simps holding_simps lost_simps)
    have b: "claims_agree ?d' q (Finished (Some j) None)"
      using assms(4) unfolding claims_agree_def Selected
      by (simp add: won_simps same)
    from ids a b False show ?thesis
      by (simp add: Selected claim_step_Selected consistent_def del: claim_step.simps)
  qed
next
  case (Finished c r)
  with assms show ?thesis by simp
qed


lemma race_inv_init:
  "distinct (map job_id (jobs d)) \<Longrightarrow> race_inv (d, Start, Start)"
  by (simp add: race_inv_def consistent_def claims_agree_def won_simps holding_simps lost_simps)

lemma race_step_inv:
  assumes "race_inv s"
  shows "race_inv (race_step ty x s)"
proof -
  obtain d a b where s: "s = (d, a, b)"
    by (cases s)
  obtain c now where x: "x = (c, now)"
    by (cases x)
  from assms have i: "distinct (map job_id (jobs d))" "consistent a" "consistent b"
    "claims_agree d a b" "claims_agree d b a"
    by (simp_all add: race_inv_def s)
  show ?thesis
  proof (cases c)
    case First
    from claim_step_keeps [OF i(1) i(2) i(4) i(5), of now ty] i(3) show ?thesis
      by (simp add: race_inv_def s x First case_prod_beta del: claim_step.simps)
  next
    case Second
    from claim_step_keeps [OF i(1) i(3) i(5) i(4), of now ty] i(2) show ?thesis
      by (simp add: race_inv_def s x Second case_prod_beta del: claim_step.simps)
  qed
qed

lemma race_inv_run:
  "race_inv s \<Longrightarrow> race_inv (race ty sched s)"
  by (induction sched arbitrary: s) (simp_all add: race_step_inv)

lemma phase_claim_step:
  "min 2 (Suc (phase p)) \<le> phase (snd (claim_step now ty (d, p)))"
proof (cases p)
  case Start
  then show ?thesis
    by (simp add: phase_def claim_step_Start split: option.splits del: claim_step.simps)
next
  case (Selected j)
  then show ?thesis
    by (simp add: phase_def claim_step_Selected del: claim_step.simps)
next
  case (Finished c r)
  then show ?thesis
    by (simp add: phase_def)
qed

lemma race_phases:
  assumes "race ty sched (d, a, b) = (d', a', b')"
  shows "min 2 (phase a + steps_of First sched) \<le> phase a'
     \<and> min 2 (phase b + steps_of Second sched) \<le> phase b'"
  using assms
proof (induction sched arbitrary: d a b)
  case Nil
  then show ?case by (simp add: steps_of_def)
next
  case (Cons x sched)
  obtain c now where x: "x = (c, now)"
    by (cases x)
  show ?case
  proof (cases c)
    case First
    let ?s = "claim_step now ty (d, a)"
    from Cons.prems have "race ty sched (fst ?s, snd ?s, b) = (d', a', b')"
      by (simp add: x First case_prod_beta del: claim_step.simps)
    from Cons.IH [OF this]
    have "min 2 (phase (snd ?s) + steps_of First sched) \<le> phase a'"
      and b: "min 2 (phase b + steps_of Second sched) \<le> phase b'"
      by simp_all
    moreover have "min 2 (Suc (phase a)) \<le> phase (snd ?s)"
      by (rule phase_claim_step)
    ultimately have "min 2 (phase a + Suc (steps_of First sched)) \<le> phase a'"
      by simp
    with b show ?thesis
      by (simp add: steps_of_def x First)
  next
    case Second
    let ?s = "claim_step now ty (d, b)"
    from Cons.prems have "race ty sched (fst ?s, a, snd ?s) = (d', a', b')"
      by (simp add: x Second case_prod_beta del: claim_step.simps)
    from Cons.IH [OF this]
    have "min 2 (phase (snd ?s) + steps_of Second sched) \<le> phase b'"
      and a: "min 2 (phase a + steps_of First sched) \<le> phase a'"
      by simp_all
    moreover have "min 2 (Suc (phase b)) \<le> phase (snd ?s)"
      by (rule phase_claim_step)
    ultimately have "min 2 (phase b + Suc (steps_of Second sched)) \<le> phase b'"
      by simp
    with a show ?thesis
      by (simp add: steps_of_def x Second)
  qed
qed

lemma finished_phase: "finished c = (2 \<le> phase c)"
  by (cases c) (simp_all add: finished_def phase_def)


lemma finished_outcome:
  assumes "finished c" and "candidate c = Some j" and "consistent c"
  shows "(won c (job_id j) \<and> returned c \<noteq> None) \<or> (lost c (job_id j) \<and> returned c = None)"
proof (cases c)
  case Start
  with assms(1) show ?thesis by (simp add: finished_def)
next
  case (Selected k)
  with assms(1) show ?thesis by (simp add: finished_def)
next
  case (Finished cand r)
  with assms(2) have c: "cand = Some j"
    by (simp add: candidate_def)
  from assms(3) Finished c have "r = None \<or> r = Some j"
    by (simp add: consistent_def)
  then show ?thesis
  proof
    assume "r = None"
    then show ?thesis by (simp add: Finished c lost_simps returned_def)
  next
    assume "r = Some j"
    then show ?thesis by (simp add: Finished c won_simps returned_def)
  qed
qed

lemma returned_won: "returned c = Some j \<Longrightarrow> won c (job_id j)"
  by (simp add: won_def)

lemma won_returned: "won c i \<Longrightarrow> returned c \<noteq> None"
  by (simp add: won_def split: option.splits)

text \<open>
  Claim C2. Two calls of \<open>Job.getNextPending\<close> for the same type run against a store
  with unique job ids, their statements interleaved by any schedule. Once each call has
  taken its two steps, both have finished. The two calls never both return the same job;
  and when both selected the same pending job, exactly one of them returns it and the
  other returns \<open>null\<close>.
\<close>

theorem claim_race:
  assumes "distinct (map job_id (jobs d))"
    and "race ty sched (d, Start, Start) = (d', a, b)"
  shows "(2 \<le> steps_of First sched \<and> 2 \<le> steps_of Second sched \<longrightarrow> finished a \<and> finished b)
     \<and> (\<forall>j j'. returned a = Some j \<and> returned b = Some j' \<longrightarrow> job_id j \<noteq> job_id j')
     \<and> (\<forall>j j'. finished a \<and> finished b \<and> candidate a = Some j \<and> candidate b = Some j'
                  \<and> job_id j = job_id j' \<longrightarrow>
            (returned a \<noteq> None \<and> returned b = None) \<or> (returned a = None \<and> returned b \<noteq> None))"
proof (intro conjI allI impI)
  from assms(1) have "race_inv (d, Start, Start)"
    by (rule race_inv_init)
  then have "race_inv (race ty sched (d, Start, Start))"
    by (rule race_inv_run)
  then have inv: "consistent a" "consistent b" "claims_agree d' a b" "claims_agree d' b a"
    by (simp_all add: assms(2) race_inv_def)
  from inv(3) have ab: "\<And>i. won a i \<Longrightarrow> \<not> won b i" and la: "\<And>i. lost a i \<Longrightarrow> won b i"
    unfolding claims_agree_def by blast+
  from inv(4) have lb: "\<And>i. lost b i \<Longrightarrow> won a i"
    unfolding claims_agree_def by blast
  {
    assume "2 \<le> steps_of First sched \<and> 2 \<le> steps_of Second sched"
    with race_phases [OF assms(2)] have "2 \<le> phase a \<and> 2 \<le> phase b"
      by (simp add: phase_def)
    then show "finished a" and "finished b"
      by (simp_all add: finished_phase)
  }
  {
    fix j j'
    assume "returned a = Some j \<and> returned b = Some j'"
    then have "won a (job_id j)" and "won b (job_id j')"
      by (simp_all add: returned_won)
    with ab show "job_id j \<noteq> job_id j'"
      by metis
  }
  {
    fix j j'
    assume h: "finished a \<and> finished b \<and> candidate a = Some j \<and> candidate b = Some j'
                  \<and> job_id j = job_id j'"
    let ?i = "job_id j"
    from h have fa: "finished a" and ca: "candidate a = Some j"
      and fb: "finished b" and cb: "candidate b = Some j'"
      by blast+
    from fa ca inv(1)
    have oa: "(won a ?i \<and> returned a \<noteq> None) \<or> (lost a ?i \<and> returned a = None)"
      by (rule finished_outcome)
    from fb cb inv(2) have "(won b (job_id j') \<and> returned b \<noteq> None)
        \<or> (lost b (job_id j') \<and> returned b = None)"
      by (rule finished_outcome)
    with h have ob: "(won b ?i \<and> returned b \<noteq> None) \<or> (lost b ?i \<and> returned b = None)"
      by simp
    from oa ob ab [of ?i] la [of ?i] lb [of ?i] won_returned [of a ?i] won_returned [of b ?i]
    show "(returned a \<noteq> None \<and> returned b = None) \<or> (returned a = None \<and> returned b \<noteq> None)"
      by blast
  }
qed


theorem claim_race_witness:
  "distinct (map job_id (jobs example_db))
   \<and> snd (race ''email'' example_schedule (example_db, Start, Start)) =
       (Finished (Some (job_row 3 ''email'' ''pending'' 20)) None,
        Finished (Some (job_row 3 ''email'' ''pending'' 20))
                 (Some (job_row 3 ''email'' ''pending'' 20)))
   \<and> steps_of First example_schedule = 2 \<and> steps_of Second example_schedule = 2
   \<and> finished (fst (snd (race ''email'' example_schedule (example_db, Start, Start))))
   \<and> finished (snd (snd (race ''email'' example_schedule (example_db, Start, Start))))
   \<and> returned (fst (snd (race ''email'' example_schedule (example_db, Start, Start)))) = None
   \<and> returned (snd (snd (race ''email'' example_schedule (example_db, Start, Start)))) \<noteq> None"
proof -
  let ?R = "race ''email'' example_schedule (example_db, Start, Start)"
  have ds: "distinct (map job_id (jobs example_db))"
    by (simp add: example_db_def job_row_def)
  have r: "?R = (fst ?R, fst (snd ?R), snd (snd ?R))"
    by simp
  have e: "snd ?R =
       (Finished (Some (job_row 3 ''email'' ''pending'' 20)) None,
        Finished (Some (job_row 3 ''email'' ''pending'' 20))
                 (Some (job_row 3 ''email'' ''pending'' 20)))"
    by (simp add: example_schedule_def getNextPending_select_def getNextPending_update_def
        example_db_def job_row_def)
  have st: "steps_of First example_schedule = 2 \<and> steps_of Second example_schedule = 2"
    by (simp add: steps_of_def example_schedule_def)
  have c: "candidate (fst (snd ?R)) = Some (job_row 3 ''email'' ''pending'' 20)
      \<and> candidate (snd (snd ?R)) = Some (job_row 3 ''email'' ''pending'' 20)"
    by (simp add: e candidate_def)
  from claim_race [OF ds r] st
  have f: "finished (fst (snd ?R)) \<and> finished (snd (snd ?R))"
    by simp
  from claim_race [OF ds r] f c
  have "(returned (fst (snd ?R)) \<noteq> None \<and> returned (snd (snd ?R)) = None)
      \<or> (returned (fst (snd ?R)) = None \<and> returned (snd (snd ?R)) \<noteq> None)"
    by blast
  moreover have "returned (fst (snd ?R)) = None"
    by (simp add: e returned_def)
  ultimately show ?thesis
    using ds e st f by simp
qed



section \<open>Scaling down\<close>

lemma stopWorker_handles:
  "handles (fst (stopWorker i m)) = (handles m)(i := None)"
  by (cases "handles m i") (simp_all add: stopWorker_def fun_upd_idem)

lemma stopWorker_killed:
  "killed (fst (stopWorker i m)) =
    killed m @ (case handles m i of None \<Rightarrow> [] | Some h \<Rightarrow> [h_process h])"
  by (cases "handles m i") (simp_all add: stopWorker_def)

lemma fold_stopWorker_handles:
  "handles (fold (\<lambda>w m. fst (stopWorker (w_id w) m)) ws m) =
    (\<lambda>i. if i \<in> set (map w_id ws) then None else handles m i)"
proof (induction ws arbitrary: m)
  case Nil
  show ?case by simp
next
  case (Cons w ws)
  show ?case
    by (simp add: Cons.IH stopWorker_handles fun_eq_iff)
qed

lemma fold_stopWorker_killed:
  assumes "distinct (map w_id ws)"
  shows "killed (fold (\<lambda>w m. fst (stopWorker (w_id w) m)) ws m) = killed m @ processes_of m ws"
  using assms
proof (induction ws arbitrary: m)
  case Nil
  show ?case by (simp add: processes_of_def)
next
  case (Cons w ws)
  let ?m = "fst (stopWorker (w_id w) m)"
  from Cons.prems have d: "distinct (map w_id ws)" and n: "w_id w \<notin> w_id ` set ws"
    by simp_all
  have "map (\<lambda>w. case handles ?m (w_id w) of None \<Rightarrow> [] | Some h \<Rightarrow> [h_process h]) ws =
        map (\<lambda>w. case handles m (w_id w) of None \<Rightarrow> [] | Some h \<Rightarrow> [h_process h]) ws"
  proof (rule map_cong [OF refl])
    fix x assume "x \<in> set ws"
    with n have "w_id x \<noteq> w_id w" by (metis imageI)
    then show "(case handles ?m (w_id x) of None \<Rightarrow> [] | Some h \<Rightarrow> [h_process h]) =
               (case handles m (w_id x) of None \<Rightarrow> [] | Some h \<Rightarrow> [h_process h])"
      by (simp add: stopWorker_handles)
  qed
  then have p: "processes_of ?m ws = processes_of m ws"
    unfolding processes_of_def by (rule arg_cong)
  have "killed (fold (\<lambda>w m. fst (stopWorker (w_id w) m)) (w # ws) m) =
        killed ?m @ processes_of ?m ws"
    using Cons.IH [OF d, of ?m] by simp
  also have "\<dots> = (killed m @ (case handles m (w_id w) of None \<Rightarrow> [] | Some h \<Rightarrow> [h_process h]))
      @ processes_of m ws"
    by (simp only: p stopWorker_killed)
  also have "\<dots> = killed m @ processes_of m (w # ws)"
    by (simp add: processes_of_def)
  finally show ?case .
qed


lemma scaleWorkers_down:
  assumes "length (worker_getByType ty d) > count"
  shows "scaleWorkers now ty count (d, m) =
    (d, fold (\<lambda>w m. fst (stopWorker (w_id w) m))
          (take (length (worker_getByType ty d) - count) (worker_getByType ty d)) m)"
  using assms by (simp add: scaleWorkers_def Let_def)

lemma distinct_getByType:
  "distinct (map w_id (workers d)) \<Longrightarrow> distinct (map w_id (worker_getByType ty d))"
  by (simp add: worker_getByType_def distinct_map_filter)

lemma stopWorker_keeps:
  "listeners (fst (stopWorker i m)) = listeners m \<and> spawned (fst (stopWorker i m)) = spawned m"
  by (cases "handles m i") (simp_all add: stopWorker_def)

lemma fold_stopWorker_keeps:
  "listeners (fold (\<lambda>w m. fst (stopWorker (w_id w) m)) ws m) = listeners m
   \<and> spawned (fold (\<lambda>w m. fst (stopWorker (w_id w) m)) ws m) = spawned m"
  by (induction ws arbitrary: m) (simp_all add: stopWorker_keeps)

lemma process_exit_handles:
  assumes "listeners m p = Some (i, t)"
  shows "handles (process_exit p code m) i =
    (if code = Some 0 then None else Some \<lparr>h_process = spawned m, h_type = t, h_id = i\<rparr>)"
  using assms by (simp add: process_exit_def startWorker_def Let_def)

lemma handles_after_stop:
  assumes "distinct (map w_id ws)" and "\<forall>w\<in>set ws. handles m (w_id w) \<noteq> None"
  shows "filter (\<lambda>w. (if w_id w \<in> set (map w_id (take k ws)) then None else handles m (w_id w)) \<noteq> None) ws
         = drop k ws"
proof -
  have ws: "ws = take k ws @ drop k ws"
    by simp
  from assms(1) have dj: "set (map w_id (take k ws)) \<inter> set (map w_id (drop k ws)) = {}"
    by (metis append_take_drop_id distinct_append map_append)
  have a: "filter (\<lambda>w. (if w_id w \<in> set (map w_id (take k ws)) then None else handles m (w_id w)) \<noteq> None)
             (take k ws) = []"
    by (simp add: filter_empty_conv)
  have b: "filter (\<lambda>w. (if w_id w \<in> set (map w_id (take k ws)) then None else handles m (w_id w)) \<noteq> None)
             (drop k ws) = drop k ws"
  proof (rule filter_True, intro ballI)
    fix x assume x: "x \<in> set (drop k ws)"
    then have "w_id x \<in> set (map w_id (drop k ws))" by simp
    with dj have "w_id x \<notin> set (map w_id (take k ws))" by blast
    moreover from x have "x \<in> set ws" by (rule in_set_dropD)
    with assms(2) have "handles m (w_id x) \<noteq> None" by blast
    ultimately show "(if w_id x \<in> set (map w_id (take k ws)) then None else handles m (w_id x)) \<noteq> None"
      by simp
  qed
  have "filter (\<lambda>w. (if w_id w \<in> set (map w_id (take k ws)) then None else handles m (w_id w)) \<noteq> None) ws
      = filter (\<lambda>w. (if w_id w \<in> set (map w_id (take k ws)) then None else handles m (w_id w)) \<noteq> None)
          (take k ws @ drop k ws)"
    by simp
  also have "\<dots> = drop k ws"
    unfolding filter_append a b by simp
  finally show ?thesis .
qed


text \<open>
  Claim C8, as the specification states it, fails: scaling down stops child processes but
  never deletes a row of the registry. With three workers of type \<open>email\<close> registered,
  \<open>scaleWorkers\<close> to 1 leaves three workers of the type in the registry.
\<close>

theorem scale_down_keeps_worker_records:
  "length (worker_getByType ''email'' example_db) = 3
   \<and> length (worker_getByType ''email''
         (fst (scaleWorkers 100 ''email'' 1 (example_db, example_manager)))) = 3"
  by (simp add: scaleWorkers_def worker_getByType_def example_db_def worker_row_def Let_def)

text \<open>
  Claim C8, amended. When more than \<open>count\<close> workers of the type are registered,
  \<open>scaleWorkers\<close> stops the first \<open>current - count\<close> of them in row order: it
  drops exactly their handles from the supervisor's map and, the ids being unique, sends
  the termination signal to the processes in these handles in that order. The registry is
  not touched, so it holds the same workers of the type as before. When every worker of
  the type had a handle, the workers of the type that have a handle when
  \<open>scaleWorkers\<close> returns are the last \<open>count\<close> in row order. The \<open>exit\<close>
  listeners stay registered: when a child exits afterwards with code 0, its worker is left
  without a handle; when it exits with any other code (\<open>null\<close> when the signal ends it
  before it has installed its own handler), the supervisor spawns a new child under the
  same id, and the worker has a handle again.
\<close>

theorem scaleWorkers_stops_oldest:
  assumes "count < length (worker_getByType ty d)"
  shows "fst (scaleWorkers now ty count (d, m)) = d
    \<and> handles (snd (scaleWorkers now ty count (d, m))) =
        (\<lambda>i. if i \<in> set (map w_id (take (length (worker_getByType ty d) - count)
                                        (worker_getByType ty d)))
             then None else handles m i)
    \<and> (distinct (map w_id (workers d)) \<longrightarrow>
         killed (snd (scaleWorkers now ty count (d, m))) =
           killed m @ processes_of m (take (length (worker_getByType ty d) - count)
                                          (worker_getByType ty d)))
    \<and> (distinct (map w_id (workers d))
         \<and> (\<forall>w\<in>set (worker_getByType ty d). handles m (w_id w) \<noteq> None) \<longrightarrow>
         with_handle ty (fst (scaleWorkers now ty count (d, m)))
             (snd (scaleWorkers now ty count (d, m)))
           = drop (length (worker_getByType ty d) - count) (worker_getByType ty d)
         \<and> length (with_handle ty (fst (scaleWorkers now ty count (d, m)))
                                (snd (scaleWorkers now ty count (d, m)))) = count)
    \<and> listeners (snd (scaleWorkers now ty count (d, m))) = listeners m
    \<and> (\<forall>p i t. listeners m p = Some (i, t) \<longrightarrow>
          handles (process_exit p code (snd (scaleWorkers now ty count (d, m)))) i =
            (if code = Some 0 then None
             else Some \<lparr>h_process = spawned m, h_type = t, h_id = i\<rparr>))"
proof -
  let ?cur = "worker_getByType ty d"
  let ?k = "length ?cur - count"
  let ?m' = "fold (\<lambda>w m. fst (stopWorker (w_id w) m)) (take ?k ?cur) m"
  have eq: "scaleWorkers now ty count (d, m) = (d, ?m')"
    using assms by (rule scaleWorkers_down)
  have h: "handles ?m' = (\<lambda>i. if i \<in> set (map w_id (take ?k ?cur)) then None else handles m i)"
    by (rule fold_stopWorker_handles)
  have k: "killed ?m' = killed m @ processes_of m (take ?k ?cur)" if "distinct (map w_id (workers d))"
  proof -
    from that have "distinct (map w_id ?cur)"
      by (rule distinct_getByType)
    then have "distinct (map w_id (take ?k ?cur))"
      by (simp add: take_map [symmetric] distinct_take del: take_map)
    then show ?thesis
      by (rule fold_stopWorker_killed)
  qed
  have r: "with_handle ty d ?m' = drop ?k ?cur \<and> length (with_handle ty d ?m') = count"
    if "distinct (map w_id (workers d))" and "\<forall>w\<in>set ?cur. handles m (w_id w) \<noteq> None"
  proof -
    from that(1) have "distinct (map w_id ?cur)"
      by (rule distinct_getByType)
    from handles_after_stop [OF this that(2), of ?k]
    have "with_handle ty d ?m' = drop ?k ?cur"
      unfolding with_handle_def h .
    moreover from assms have "length (drop ?k ?cur) = count"
      by simp
    ultimately show ?thesis by simp
  qed
  have l: "listeners ?m' = listeners m" and sp: "spawned ?m' = spawned m"
    by (simp_all add: fold_stopWorker_keeps)
  have x: "handles (process_exit p code ?m') i =
      (if code = Some 0 then None else Some \<lparr>h_process = spawned m, h_type = t, h_id = i\<rparr>)"
    if "listeners m p = Some (i, t)" for p i t
  proof -
    from that have "listeners ?m' p = Some (i, t)"
      by (simp only: l)
    from process_exit_handles [OF this, of code] show ?thesis
      by (simp only: sp)
  qed
  show ?thesis
    unfolding eq fst_conv snd_conv using h k r l x by blast
qed

theorem scaleWorkers_stops_oldest_witness:
  "1 < length (worker_getByType ''email'' example_db)
   \<and> distinct (map w_id (workers example_db))
   \<and> map w_id (with_handle ''email'' example_db example_manager) = [1, 3, 4]
   \<and> fst (scaleWorkers 100 ''email'' 1 (example_db, example_manager)) = example_db
   \<and> killed (snd (scaleWorkers 100 ''email'' 1 (example_db, example_manager))) = [0, 2]
   \<and> map w_id (with_handle ''email'' example_db
         (snd (scaleWorkers 100 ''email'' 1 (example_db, example_manager)))) = [4]
   \<and> listeners example_manager 0 = Some (1, ''email'')
   \<and> handles (process_exit 0 (Some 0)
         (snd (scaleWorkers 100 ''email'' 1 (example_db, example_manager)))) 1 = None
   \<and> handles (process_exit 0 None
         (snd (scaleWorkers 100 ''email'' 1 (example_db, example_manager)))) 1
       = Some \<lparr>h_process = 4, h_type = ''email'', h_id = 1\<rparr>"
proof -
  have a: "1 < length (worker_getByType ''email'' example_db)"
    by (simp add: worker_getByType_def example_db_def worker_row_def)
  have b: "distinct (map w_id (workers example_db))"
    by (simp add: example_db_def worker_row_def)
  have c: "\<forall>w\<in>set (worker_getByType ''email'' example_db). handles example_manager (w_id w) \<noteq> None"
    by (simp add: worker_getByType_def example_manager_def manager_init_def worker_getAll_def
        startWorker_def example_db_def worker_row_def empty_manager_def)
  have d: "map w_id (with_handle ''email'' example_db example_manager) = [1, 3, 4]"
    by (simp add: with_handle_def worker_getByType_def example_manager_def manager_init_def
        worker_getAll_def startWorker_def example_db_def worker_row_def empty_manager_def)
  have e: "processes_of example_manager (take 2 (worker_getByType ''email'' example_db)) = [0, 2]"
    by (simp add: processes_of_def worker_getByType_def example_manager_def manager_init_def
        worker_getAll_def startWorker_def example_db_def worker_row_def empty_manager_def)
  have f: "map w_id (drop 2 (worker_getByType ''email'' example_db)) = [4]"
    by (simp add: worker_getByType_def example_db_def worker_row_def)
  have g: "length (worker_getByType ''email'' example_db) - 1 = 2"
    by (simp add: worker_getByType_def example_db_def worker_row_def)
  have h: "killed example_manager = []"
    by (simp add: example_manager_def manager_init_def worker_getAll_def startWorker_def
        example_db_def worker_row_def empty_manager_def)
  have l: "listeners example_manager 0 = Some (1, ''email'')"
    by (simp add: example_manager_def manager_init_def worker_getAll_def startWorker_def
        example_db_def worker_row_def empty_manager_def)
  have sp: "spawned example_manager = 4"
    by (simp add: example_manager_def manager_init_def worker_getAll_def startWorker_def
        example_db_def worker_row_def empty_manager_def)
  from scaleWorkers_stops_oldest [OF a, of 100 example_manager "Some 0"] b c l
  have "fst (scaleWorkers 100 ''email'' 1 (example_db, example_manager)) = example_db"
    and "killed (snd (scaleWorkers 100 ''email'' 1 (example_db, example_manager))) =
           killed example_manager @ processes_of example_manager
             (take (length (worker_getByType ''email'' example_db) - 1)
                (worker_getByType ''email'' example_db))"
    and "with_handle ''email'' (fst (scaleWorkers 100 ''email'' 1 (example_db, example_manager)))
           (snd (scaleWorkers 100 ''email'' 1 (example_db, example_manager)))
         = drop (length (worker_getByType ''email'' example_db) - 1)
             (worker_getByType ''email'' example_db)"
    and "handles (process_exit 0 (Some 0)
           (snd (scaleWorkers 100 ''email'' 1 (example_db, example_manager)))) 1 =
         (if Some (0::int) = Some 0 then None
          else Some \<lparr>h_process = spawned example_manager, h_type = ''email'', h_id = 1\<rparr>)"
    by blast+
  moreover from scaleWorkers_stops_oldest [OF a, of 100 example_manager None] l
  have "handles (process_exit 0 None
           (snd (scaleWorkers 100 ''email'' 1 (example_db, example_manager)))) 1 =
         (if (None :: int option) = Some 0 then None
          else Some \<lparr>h_process = spawned example_manager, h_type = ''email'', h_id = 1\<rparr>)"
    by blast
  ultimately show ?thesis
    using a b d e f g h l sp by simp
qed

end
